theory Spec2Isabelle
  imports Complex_Main "HOL-Library.Word"
begin

unbundle bit_operations_syntax

section \<open>Data model of \<open>src/index.js\<close>\<close>

text \<open>
  The server keeps two module-level variables: \<open>grid\<close>, an array of \<open>GRID_SIZE\<close> rows
  of \<open>GRID_SIZE\<close> cells, each \<open>null\<close> or an object \<open>{ fid }\<close>, and \<open>userPixels\<close>, a
  plain object from the caller's id to the array of positions \<open>{ x, y }\<close> it was
  granted. A position \<open>{ x, y }\<close> is the pair \<open>(x, y)\<close>.

  The id is \<open>untrustedData.fid\<close> of the request body (line 179), which nothing checks:
  any JSON value. The program uses it in two ways only: as the content of the claimed
  cell, which it never reads back, and as a property key of \<open>userPixels\<close>, where
  JavaScript converts it to a string. The model takes an id as this string; a numeric
  id is its decimal string. The own properties of \<open>userPixels\<close> are a finite map from
  these strings; what a key that is no own property reads is said at
  \<open>push_position\<close>.

  The third cell value, \<open>Undefined\<close>, is what JavaScript reads beyond the end of a row
  and what the holes of a row extended by an assignment beyond its end read as. No cell
  of the initial grid is \<open>Undefined\<close>.
\<close>

definition GRID_SIZE :: nat where
  "GRID_SIZE = 1000"

definition TOKEN_SIZE :: nat where
  "TOKEN_SIZE = 10"

type_synonym fid = string

datatype cell = Null | Undefined | Obj (fid: fid)

type_synonym grid = "cell list list"

type_synonym position = "nat \<times> nat"

record state =
  grid :: grid
  userPixels :: "fid \<rightharpoonup> position list"

datatype error = TypeError | RangeError | SyntaxError | ENOENT | EACCES | JimpError

text \<open>Line 22 and line 23: the values the two variables are initialised with.\<close>

definition initial_grid :: grid where
  "initial_grid = replicate GRID_SIZE (replicate GRID_SIZE Null)"

definition initial_state :: state where
  "initial_state = \<lparr>grid = initial_grid, userPixels = Map.empty\<rparr>"

text \<open>JavaScript truthiness of a cell: \<open>null\<close> and \<open>undefined\<close> are falsy, an object is
  truthy.\<close>

fun truthy :: "cell \<Rightarrow> bool" where
  "truthy (Obj f) = True"
| "truthy Null = False"
| "truthy Undefined = False"

text \<open>
  \<open>grid[y][x]\<close> as an expression: \<open>grid[y]\<close> beyond the rows is \<open>undefined\<close> and
  indexing it throws a TypeError; an index beyond the end of an existing row reads
  \<open>undefined\<close>.
\<close>

definition grid_read :: "grid \<Rightarrow> nat \<Rightarrow> nat \<Rightarrow> error + cell" where
  "grid_read g y x =
     (if y < length g
      then Inr (if x < length (g ! y) then g ! y ! x else Undefined)
      else Inl TypeError)"

text \<open>
  \<open>grid[y][x] = v\<close>: an assignment beyond the end of a row extends the row, leaving
  holes before the new element.
\<close>

definition grid_write :: "grid \<Rightarrow> nat \<Rightarrow> nat \<Rightarrow> cell \<Rightarrow> error + grid" where
  "grid_write g y x v =
     (if y < length g
      then Inr (g[y := (if x < length (g ! y) then (g ! y)[x := v]
                        else g ! y @ replicate (x - length (g ! y)) Undefined @ [v])])
      else Inl TypeError)"

section \<open>The claim scan of the \<open>POST /api/frame\<close> handler\<close>

text \<open>
  Lines 184 to 193. The two locals \<open>claimed\<close> and \<open>claimedPosition\<close> are assigned
  together (lines 188 and 189), so the model keeps \<open>claimedPosition\<close> alone, as an
  option: \<open>claimed\<close> is true exactly when it is \<open>Some\<close>. \<open>claim_row\<close> is the inner loop
  from the column \<open>x\<close> on, \<open>claim_rows\<close> the outer loop from the row \<open>y\<close> on; both return
  the grid and \<open>claimedPosition\<close>, or the error thrown.
\<close>

function claim_row :: "fid \<Rightarrow> grid \<Rightarrow> nat \<Rightarrow> nat \<Rightarrow> error + (grid \<times> position option)" where
  "claim_row f g y x =
     (if x < GRID_SIZE
      then (case grid_read g y x of
              Inl e \<Rightarrow> Inl e
            | Inr c \<Rightarrow>
                if \<not> truthy c
                then (case grid_write g y x (Obj f) of
                        Inl e \<Rightarrow> Inl e
                      | Inr g' \<Rightarrow> Inr (g', Some (x, y)))
                else claim_row f g y (x + TOKEN_SIZE))
      else Inr (g, None))"
  by pat_completeness auto
termination
  by (relation "measure (\<lambda>(f, g, y, x). GRID_SIZE - x)") (auto simp: TOKEN_SIZE_def)

function claim_rows :: "fid \<Rightarrow> grid \<Rightarrow> nat \<Rightarrow> error + (grid \<times> position option)" where
  "claim_rows f g y =
     (if y < GRID_SIZE
      then (case claim_row f g y 0 of
              Inl e \<Rightarrow> Inl e
            | Inr (g', Some p) \<Rightarrow> Inr (g', Some p)
            | Inr (g', None) \<Rightarrow> claim_rows f g' (y + TOKEN_SIZE))
      else Inr (g, None))"
  by pat_completeness auto
termination
  by (relation "measure (\<lambda>(f, g, y). GRID_SIZE - y)") (auto simp: TOKEN_SIZE_def)

declare claim_row.simps [simp del]
declare claim_rows.simps [simp del]

text \<open>
  Lines 196 to 199. \<open>userPixels[fid]\<close> reads the own property of that name and, when
  there is none, the property that a plain object inherits from \<open>Object.prototype\<close>;
  only a name that is neither reads \<open>undefined\<close>. The inherited values are functions
  and, for \<open>__proto__\<close>, the prototype object: all truthy and none with a method
  \<open>push\<close>. For such a name line 197 is skipped and line 199 throws a TypeError.
\<close>

definition Object_prototype_keys :: "string list" where
  "Object_prototype_keys =
     [''constructor'', ''__proto__'', ''hasOwnProperty'', ''isPrototypeOf'',
      ''propertyIsEnumerable'', ''toString'', ''toLocaleString'', ''valueOf'',
      ''__defineGetter__'', ''__defineSetter__'', ''__lookupGetter__'', ''__lookupSetter__'']"

definition inherited :: "fid \<Rightarrow> bool" where
  "inherited f = (f \<in> set Object_prototype_keys)"

definition push_position ::
  "(fid \<rightharpoonup> position list) \<Rightarrow> fid \<Rightarrow> position \<Rightarrow> error + (fid \<rightharpoonup> position list)" where
  "push_position up f p =
     (case up f of
        Some ps \<Rightarrow> Inr (up(f \<mapsto> ps @ [p]))
      | None \<Rightarrow> if inherited f then Inl TypeError else Inr (up(f \<mapsto> [p])))"

text \<open>
  Lines 181 to 199: the scan, then the append to \<open>userPixels[fid]\<close>. The result is
  \<open>claimedPosition\<close> or the error thrown, with the two variables as they are then. An
  error of the scan leaves both as they were, since the scan's only assignment is its
  last step; an error of line 199 comes after line 187 has written the cell.
\<close>

definition claim :: "fid \<Rightarrow> state \<Rightarrow> (error + position option) \<times> state" where
  "claim f s =
     (case claim_rows f (grid s) 0 of
        Inl e \<Rightarrow> (Inl e, s)
      | Inr (g', None) \<Rightarrow> (Inr None, s\<lparr>grid := g'\<rparr>)
      | Inr (g', Some p) \<Rightarrow>
          (case push_position (userPixels s) f p of
             Inl e \<Rightarrow> (Inl e, s\<lparr>grid := g'\<rparr>)
           | Inr up' \<Rightarrow> (Inr (Some p), \<lparr>grid = g', userPixels = up'\<rparr>)))"

text \<open>
  A sequence of claim operations, one per request, with the result of each. A request
  whose handler throws leaves the two variables as they are at the throw, and the next
  request starts from them.
\<close>

fun claims :: "fid list \<Rightarrow> state \<Rightarrow> (error + position option) list \<times> state" where
  "claims [] s = ([], s)"
| "claims (f # fs) s =
     (case claim f s of
        (r, s') \<Rightarrow>
          (case claims fs s' of
             (rs, s'') \<Rightarrow> (r # rs, s'')))"

text \<open>The coordinates of the successful claims of a sequence, in order.\<close>

fun granted :: "(error + position option) list \<Rightarrow> position list" where
  "granted [] = []"
| "granted (Inr (Some p) # rs) = p # granted rs"
| "granted (Inr None # rs) = granted rs"
| "granted (Inl e # rs) = granted rs"

section \<open>Persistence: \<open>loadData\<close> and \<open>saveData\<close>\<close>

text \<open>
  The two snapshot files are the environment of the program. A file is absent
  (\<open>fs.readFile\<close> rejects with code \<open>ENOENT\<close>), unreadable (it rejects with another
  code, here \<open>EACCES\<close>), or has a text. A text is either no JSON (\<open>JSON.parse\<close> throws a
  SyntaxError, which has no \<open>code\<close>) or the JSON text of a value, written \<open>Json v\<close>:
  \<open>JSON.parse\<close> of it is \<open>v\<close>. The two flags say whether \<open>fs.writeFile\<close> to the file
  succeeds; a failed write leaves the file as it was. \<open>loadData\<close> does not check what it
  parsed; the types of the two fields restrict \<open>grid.json\<close> to the JSON texts of grids
  and \<open>user_pixels.json\<close> to those of maps from ids to position lists, which are the
  texts \<open>saveData\<close> writes.
\<close>

datatype 'a json_text = Garbage | Json 'a

datatype 'a snapshot_file = Absent | Unreadable | Contents "'a json_text"

record disk =
  grid_json :: "grid snapshot_file"
  user_pixels_json :: "(fid \<rightharpoonup> position list) snapshot_file"
  grid_json_writable :: bool
  user_pixels_json_writable :: bool

definition fs_readFile :: "'a snapshot_file \<Rightarrow> error + 'a json_text" where
  "fs_readFile f = (case f of Absent \<Rightarrow> Inl ENOENT | Unreadable \<Rightarrow> Inl EACCES | Contents t \<Rightarrow> Inr t)"

definition JSON_parse :: "'a json_text \<Rightarrow> error + 'a" where
  "JSON_parse t = (case t of Garbage \<Rightarrow> Inl SyntaxError | Json v \<Rightarrow> Inr v)"

text \<open>
  \<open>JSON.stringify\<close> writes \<open>undefined\<close> elements and holes of an array as \<open>null\<close>; every
  other value of the grid and of \<open>userPixels\<close> (numbers, \<open>null\<close>, plain objects and
  arrays of them) is written as a text that parses back to it.
\<close>

fun undefined_to_null :: "cell \<Rightarrow> cell" where
  "undefined_to_null Undefined = Null"
| "undefined_to_null Null = Null"
| "undefined_to_null (Obj f) = Obj f"

definition JSON_stringify_grid :: "grid \<Rightarrow> grid json_text" where
  "JSON_stringify_grid g = Json (map (map undefined_to_null) g)"

definition JSON_stringify_userPixels :: "(fid \<rightharpoonup> position list) \<Rightarrow> (fid \<rightharpoonup> position list) json_text" where
  "JSON_stringify_userPixels up = Json up"

text \<open>
  Lines 25 to 36. The \<open>catch\<close> covers the whole body, logs every error whose \<open>code\<close>
  is not \<open>ENOENT\<close> (the second component of the result is what \<open>console.error\<close> was
  given) and never throws again: the promise of \<open>loadData\<close> always resolves, which is
  the \<open>Inr\<close> of every branch. An assignment made before the error stays.
\<close>

definition logged :: "error \<Rightarrow> error list" where
  "logged e = (if e \<noteq> ENOENT then [e] else [])"

definition loadData :: "state \<Rightarrow> disk \<Rightarrow> error + (state \<times> error list)" where
  "loadData s d =
     (case fs_readFile (grid_json d) of
        Inl e \<Rightarrow> Inr (s, logged e)
      | Inr gridData \<Rightarrow>
          (case JSON_parse gridData of
             Inl e \<Rightarrow> Inr (s, logged e)
           | Inr g \<Rightarrow>
               (case fs_readFile (user_pixels_json d) of
                  Inl e \<Rightarrow> Inr (s\<lparr>grid := g\<rparr>, logged e)
                | Inr userData \<Rightarrow>
                    (case JSON_parse userData of
                       Inl e \<Rightarrow> Inr (s\<lparr>grid := g\<rparr>, logged e)
                     | Inr up \<Rightarrow> Inr (s\<lparr>grid := g, userPixels := up\<rparr>, [])))))"

text \<open>
  Lines 218 to 222: the server listens once the promise of \<open>loadData\<close> resolves; a
  rejected promise would end the start without a listening server.
\<close>

datatype server = Listening state "error list" | Terminated error

definition startup :: "disk \<Rightarrow> server" where
  "startup d =
     (case loadData initial_state d of
        Inl e \<Rightarrow> Terminated e
      | Inr (s, es) \<Rightarrow> Listening s es)"

text \<open>Lines 38 to 41: two writes in sequence; the second is not reached when the first
  fails. The result is the outcome and the files as they are afterwards.\<close>

definition saveData :: "state \<Rightarrow> disk \<Rightarrow> (error + unit) \<times> disk" where
  "saveData s d =
     (if grid_json_writable d
      then (let d1 = d\<lparr>grid_json := Contents (JSON_stringify_grid (grid s))\<rparr>
            in if user_pixels_json_writable d1
               then (Inr (), d1\<lparr>user_pixels_json := Contents (JSON_stringify_userPixels (userPixels s))\<rparr>)
               else (Inl EACCES, d1))
      else (Inl EACCES, d))"

text \<open>
  Lines 181 to 201 of the handler: the claim, then \<open>saveData\<close> when a cell was claimed.
  The result is what the handler holds after line 201 (\<open>claimedPosition\<close>, or the error
  thrown), with the two variables and the files as they are at that point.
\<close>

definition claim_and_save :: "fid \<Rightarrow> state \<Rightarrow> disk \<Rightarrow> (error + position option) \<times> state \<times> disk" where
  "claim_and_save f s d =
     (case claim f s of
        (Inl e, s') \<Rightarrow> (Inl e, s', d)
      | (Inr None, s') \<Rightarrow> (Inr None, s', d)
      | (Inr (Some p), s') \<Rightarrow>
          (case saveData s' d of
             (Inl e, d') \<Rightarrow> (Inl e, s', d')
           | (Inr u, d') \<Rightarrow> (Inr (Some p), s', d')))"

section \<open>The image: \<open>generatePixelColor\<close> and \<open>generateImage\<close>\<close>

text \<open>
  JavaScript numbers are doubles; the model computes with real numbers, \<open>Math.sin\<close> is
  \<open>sin\<close> and \<open>Math.floor\<close> is the floor. On the lattice coordinates the products
  \<open>x * scaleFactor\<close> are the integers \<open>12 * (x div 10)\<close> in both readings.

  \<open>Jimp.rgbaToInt\<close> is library code (jimp 0.22; the repository names no version, and
  older versions of the library round the channels first). It throws unless every
  channel lies between 0 and 255 and then packs \<open>r & 0xff\<close>, \<open>g & 0xff\<close>, \<open>b & 0xff\<close>
  and \<open>a & 0xff\<close> into one unsigned 32-bit number, red in the highest byte. The
  operator \<open>&\<close> converts its operand to a 32-bit integer by cutting the fraction
  (towards zero), so a channel is not rounded; \<open>and_0xff\<close> is the low byte of that
  integer. \<open>intToRGBA\<close> reads the four bytes back.
\<close>

definition and_0xff :: "real \<Rightarrow> int" where
  "and_0xff r = (if 0 \<le> r then \<lfloor>r\<rfloor> else \<lceil>r\<rceil>) mod 256"

definition rgbaToInt :: "real \<Rightarrow> real \<Rightarrow> real \<Rightarrow> real \<Rightarrow> error + 32 word" where
  "rgbaToInt r g b a =
     (if 0 \<le> r \<and> r \<le> 255 \<and> 0 \<le> g \<and> g \<le> 255 \<and> 0 \<le> b \<and> b \<le> 255 \<and> 0 \<le> a \<and> a \<le> 255
      then Inr (word_of_int
                  (and_0xff r * 2 ^ 24 + and_0xff g * 2 ^ 16 + and_0xff b * 2 ^ 8 + and_0xff a))
      else Inl JimpError)"

definition intToRGBA :: "32 word \<Rightarrow> int \<times> int \<times> int \<times> int" where
  "intToRGBA i =
     (uint i div 2 ^ 24 mod 256, uint i div 2 ^ 16 mod 256, uint i div 2 ^ 8 mod 256, uint i mod 256)"

text \<open>Lines 43 to 53.\<close>

definition generatePixelColor :: "nat \<Rightarrow> nat \<Rightarrow> bool \<Rightarrow> error + 32 word" where
  "generatePixelColor x y claimed =
     (if claimed
      then (let r = sin (0.3 * real x) * 127 + 128;
                g = sin (0.3 * real y) * 127 + 128;
                b = sin (0.3 * real (x + y)) * 127 + 128
            in rgbaToInt r g b 255)
      else (let v = sin (0.1 * real (x + y)) * 30 + 225
            in rgbaToInt v v v 255))"

text \<open>
  The bitmap of a Jimp image is a Node.js \<open>Buffer\<close> of \<open>width * height * 4\<close> bytes,
  four per pixel, rows first. \<open>readUInt32BE\<close> and \<open>writeUInt32BE\<close> throw a RangeError
  unless the four bytes at the offset lie inside the buffer; a \<open>Buffer\<close> never grows.
\<close>

type_synonym buffer = "8 word list"

definition width :: nat where
  "width = 1200"

definition height :: nat where
  "height = 630"

definition new_image :: buffer where
  "new_image = replicate (width * height * 4) 0xFF"

definition writeUInt32BE :: "buffer \<Rightarrow> 32 word \<Rightarrow> int \<Rightarrow> error + buffer" where
  "writeUInt32BE buf v idx =
     (if 0 \<le> idx \<and> idx + 4 \<le> int (length buf)
      then Inr (buf[nat idx := ucast (drop_bit 24 v),
                    nat idx + 1 := ucast (drop_bit 16 v),
                    nat idx + 2 := ucast (drop_bit 8 v),
                    nat idx + 3 := ucast v])
      else Inl RangeError)"

definition readUInt32BE :: "buffer \<Rightarrow> int \<Rightarrow> error + 32 word" where
  "readUInt32BE buf idx =
     (if 0 \<le> idx \<and> idx + 4 \<le> int (length buf)
      then Inr (push_bit 24 (ucast (buf ! nat idx)) OR push_bit 16 (ucast (buf ! (nat idx + 1)))
                OR push_bit 8 (ucast (buf ! (nat idx + 2))) OR ucast (buf ! (nat idx + 3)))
      else Inl RangeError)"

text \<open>
  \<open>image.scanQuiet(x, y, w, h, f)\<close> of Jimp runs \<open>f(_x, _y, idx)\<close> for the rows
  \<open>_y\<close> from \<open>y\<close> below \<open>y + h\<close> and, in each, the columns \<open>_x\<close> from \<open>x\<close> below
  \<open>x + w\<close>, with \<open>idx = (width * _y + _x) << 2\<close>, a 32-bit shift; it does not clip
  the rectangle to the image. A start coordinate that is \<open>NaN\<close> (here \<open>None\<close>) makes
  the loop condition false, so that nothing runs.
\<close>

type_synonym callback = "nat \<Rightarrow> nat \<Rightarrow> int \<Rightarrow> buffer \<Rightarrow> error + buffer"

definition pixel_idx :: "nat \<Rightarrow> nat \<Rightarrow> int" where
  "pixel_idx x y = sint (push_bit 2 (word_of_nat (width * y + x) :: 32 word))"

function scan_cols :: "callback \<Rightarrow> nat \<Rightarrow> nat \<Rightarrow> nat \<Rightarrow> buffer \<Rightarrow> error + buffer" where
  "scan_cols f y x xe buf =
     (if x < xe
      then (case f x y (pixel_idx x y) buf of
              Inl e \<Rightarrow> Inl e
            | Inr buf' \<Rightarrow> scan_cols f y (x + 1) xe buf')
      else Inr buf)"
  by pat_completeness auto
termination
  by (relation "measure (\<lambda>(f, y, x, xe, buf). xe - x)") auto

function scan_rows :: "callback \<Rightarrow> nat \<Rightarrow> nat \<Rightarrow> nat \<Rightarrow> nat \<Rightarrow> buffer \<Rightarrow> error + buffer" where
  "scan_rows f y ye x xe buf =
     (if y < ye
      then (case scan_cols f y x xe buf of
              Inl e \<Rightarrow> Inl e
            | Inr buf' \<Rightarrow> scan_rows f (y + 1) ye x xe buf')
      else Inr buf)"
  by pat_completeness auto
termination
  by (relation "measure (\<lambda>(f, y, ye, x, xe, buf). ye - y)") auto

declare scan_cols.simps [simp del]
declare scan_rows.simps [simp del]

definition scanQuiet :: "nat option \<Rightarrow> nat option \<Rightarrow> nat \<Rightarrow> nat \<Rightarrow> callback \<Rightarrow> buffer \<Rightarrow> error + buffer" where
  "scanQuiet x y w h f buf =
     (case y of
        None \<Rightarrow> Inr buf
      | Some y0 \<Rightarrow>
          (case x of
             None \<Rightarrow> Inr buf
           | Some x0 \<Rightarrow> scan_rows f y0 (y0 + h) x0 (x0 + w) buf))"

text \<open>
  The arguments \<open>newPixelX\<close> and \<open>newPixelY\<close> of \<open>generateImage\<close> are \<open>null\<close> (the route
  \<open>/frame-image\<close>), a number, or \<open>undefined\<close>: \<open>claimedPosition?.x\<close> is \<open>undefined\<close> when
  \<open>claimedPosition\<close> is \<open>null\<close>. \<open>Math.floor(undefined * scaleFactor)\<close> is \<open>NaN\<close>, and
  \<open>null * scaleFactor\<close> is 0.
\<close>

datatype jsnum = JNull | JUndefined | JNum nat

definition scaleFactor :: real where
  "scaleFactor = real width / real GRID_SIZE"

definition scaledTokenSize :: nat where
  "scaledTokenSize = nat \<lfloor>real TOKEN_SIZE * scaleFactor\<rfloor>"

definition scaled :: "nat \<Rightarrow> nat" where
  "scaled c = nat \<lfloor>real c * scaleFactor\<rfloor>"

definition scaled_arg :: "jsnum \<Rightarrow> nat option" where
  "scaled_arg a = (case a of JNull \<Rightarrow> Some 0 | JUndefined \<Rightarrow> None | JNum c \<Rightarrow> Some (scaled c))"

definition opt_x :: "position option \<Rightarrow> jsnum" where
  "opt_x p = (case p of None \<Rightarrow> JUndefined | Some (x, y) \<Rightarrow> JNum x)"

definition opt_y :: "position option \<Rightarrow> jsnum" where
  "opt_y p = (case p of None \<Rightarrow> JUndefined | Some (x, y) \<Rightarrow> JNum y)"

text \<open>
  The functions of Jimp whose results the model leaves open: \<open>Jimp.blend\<close>,
  \<open>image.print\<close> with the loaded font, and \<open>image.getBufferAsync\<close>, the PNG encoder.
\<close>

record 'png jimp =
  jimp_blend :: "32 word \<Rightarrow> 32 word \<Rightarrow> error + 32 word"
  jimp_print :: "buffer \<Rightarrow> error + buffer"
  jimp_getBufferAsync :: "buffer \<Rightarrow> error + 'png"

text \<open>The callback of line 68, and line 75 with the callback of line 78.\<close>

definition fill_pixel :: "32 word \<Rightarrow> callback" where
  "fill_pixel color x y idx buf = writeUInt32BE buf color idx"

definition highlightColor :: "error + 32 word" where
  "highlightColor = rgbaToInt 255 255 0 128"

definition blend_pixel :: "'png jimp \<Rightarrow> 32 word \<Rightarrow> callback" where
  "blend_pixel lib highlight x y idx buf =
     (case readUInt32BE buf idx of
        Inl e \<Rightarrow> Inl e
      | Inr baseColor \<Rightarrow>
          (case jimp_blend lib baseColor highlight of
             Inl e \<Rightarrow> Inl e
           | Inr blendedColor \<Rightarrow> writeUInt32BE buf blendedColor idx))"

text \<open>Lines 63 to 72: \<open>fill_tiles_x\<close> is the inner loop from the column \<open>x\<close> on,
  \<open>fill_tiles_y\<close> the outer loop from the row \<open>y\<close> on.\<close>

function fill_tiles_x :: "grid \<Rightarrow> nat \<Rightarrow> nat \<Rightarrow> buffer \<Rightarrow> error + buffer" where
  "fill_tiles_x g y x buf =
     (if x < GRID_SIZE
      then (case grid_read g y x of
              Inl e \<Rightarrow> Inl e
            | Inr c \<Rightarrow>
                (case generatePixelColor x y (c \<noteq> Null) of
                   Inl e \<Rightarrow> Inl e
                 | Inr color \<Rightarrow>
                     (case scanQuiet (Some (scaled x)) (Some (scaled y))
                             scaledTokenSize scaledTokenSize (fill_pixel color) buf of
                        Inl e \<Rightarrow> Inl e
                      | Inr buf' \<Rightarrow> fill_tiles_x g y (x + TOKEN_SIZE) buf')))
      else Inr buf)"
  by pat_completeness auto
termination
  by (relation "measure (\<lambda>(g, y, x, buf). GRID_SIZE - x)") (auto simp: TOKEN_SIZE_def)

function fill_tiles_y :: "grid \<Rightarrow> nat \<Rightarrow> buffer \<Rightarrow> error + buffer" where
  "fill_tiles_y g y buf =
     (if y < GRID_SIZE
      then (case fill_tiles_x g y 0 buf of
              Inl e \<Rightarrow> Inl e
            | Inr buf' \<Rightarrow> fill_tiles_y g (y + TOKEN_SIZE) buf')
      else Inr buf)"
  by pat_completeness auto
termination
  by (relation "measure (\<lambda>(g, y, buf). GRID_SIZE - y)") (auto simp: TOKEN_SIZE_def)

declare fill_tiles_x.simps [simp del]
declare fill_tiles_y.simps [simp del]

text \<open>Lines 55 to 89.\<close>

definition generateImage :: "'png jimp \<Rightarrow> grid \<Rightarrow> jsnum \<Rightarrow> jsnum \<Rightarrow> error + 'png" where
  "generateImage lib g newPixelX newPixelY =
     (case fill_tiles_y g 0 new_image of
        Inl e \<Rightarrow> Inl e
      | Inr img \<Rightarrow>
          (case (if newPixelX \<noteq> JNull \<and> newPixelY \<noteq> JNull
                 then (case highlightColor of
                         Inl e \<Rightarrow> Inl e
                       | Inr highlight \<Rightarrow>
                           scanQuiet (scaled_arg newPixelX) (scaled_arg newPixelY)
                             scaledTokenSize scaledTokenSize (blend_pixel lib highlight) img)
                 else Inr img) of
             Inl e \<Rightarrow> Inl e
           | Inr img' \<Rightarrow>
               (case jimp_print lib img' of
                  Inl e \<Rightarrow> Inl e
                | Inr img'' \<Rightarrow> jimp_getBufferAsync lib img'')))"

section \<open>The handler of \<open>POST /api/frame\<close>\<close>

text \<open>
  Lines 172 to 216. \<open>verifyFarcasterMessage\<close> asks an outside service; its answer is the
  argument \<open>valid\<close>. A response is the status 400 or the frame with its image, the label
  of its button and its text.
\<close>

datatype frame_text = You_claimed nat nat | Sorry_no_pixels

datatype 'png response = Invalid_signature | Frame 'png string frame_text

definition frame_handler ::
  "'png jimp \<Rightarrow> bool \<Rightarrow> fid \<Rightarrow> state \<Rightarrow> disk \<Rightarrow> (error + 'png response) \<times> state \<times> disk" where
  "frame_handler lib valid f s d =
     (if \<not> valid then (Inr Invalid_signature, s, d)
      else (case claim_and_save f s d of
              (Inl e, s', d') \<Rightarrow> (Inl e, s', d')
            | (Inr claimedPosition, s', d') \<Rightarrow>
                (case generateImage lib (grid s') (opt_x claimedPosition) (opt_y claimedPosition) of
                   Inl e \<Rightarrow> (Inl e, s', d')
                 | Inr img \<Rightarrow>
                     (Inr (case claimedPosition of
                             Some (x, y) \<Rightarrow> Frame img ''Pixel Claimed!'' (You_claimed x y)
                           | None \<Rightarrow> Frame img ''Claim Pixel'' Sorry_no_pixels),
                      s', d'))))"

section \<open>Predicates of the statements\<close>

text \<open>A grid has the shape of the initial one: \<open>GRID_SIZE\<close> rows of \<open>GRID_SIZE\<close> cells.\<close>

definition wf_grid :: "grid \<Rightarrow> bool" where
  "wf_grid g = (length g = GRID_SIZE \<and> list_all (\<lambda>row. length row = GRID_SIZE) g)"

text \<open>The first \<open>n\<close> lattice cells in row-major order are claimed and no other lattice cell
  is.\<close>

definition filled :: "nat \<Rightarrow> grid \<Rightarrow> bool" where
  "filled n g =
     (wf_grid g \<and>
      (\<forall>i j. i < 100 \<and> j < 100 \<longrightarrow> truthy (g ! (10 * i) ! (10 * j)) = (100 * i + j < n)))"

text \<open>
  The grid and \<open>userPixels\<close> agree: a position listed for an owner is the position of a
  cell holding that owner, and every cell that holds an owner is listed exactly once for
  that owner and for no other.
\<close>

definition consistent :: "state \<Rightarrow> bool" where
  "consistent s =
     ((\<forall>f ps x y. userPixels s f = Some ps \<and> (x, y) \<in> set ps \<longrightarrow>
          x < GRID_SIZE \<and> y < GRID_SIZE \<and> grid s ! y ! x = Obj f) \<and>
      (\<forall>x y f. x < GRID_SIZE \<and> y < GRID_SIZE \<and> grid s ! y ! x = Obj f \<longrightarrow>
          (\<exists>ps. userPixels s f = Some ps \<and> count_list ps (x, y) = 1) \<and>
          (\<forall>f' ps'. f' \<noteq> f \<and> userPixels s f' = Some ps' \<longrightarrow> (x, y) \<notin> set ps')))"

text \<open>What a successful append of lines 196 to 199 leaves in \<open>userPixels\<close>.\<close>

definition appended :: "(fid \<rightharpoonup> position list) \<Rightarrow> fid \<Rightarrow> position \<Rightarrow> (fid \<rightharpoonup> position list)" where
  "appended up f p = up(f \<mapsto> (case up f of None \<Rightarrow> [] | Some ps \<Rightarrow> ps) @ [p])"

section \<open>The scan order\<close>

lemma wf_grid_length: "wf_grid g \<Longrightarrow> length g = 1000"
  by (simp add: wf_grid_def GRID_SIZE_def)

lemma wf_grid_row: "wf_grid g \<Longrightarrow> y < 1000 \<Longrightarrow> length (g ! y) = 1000"
  by (simp add: wf_grid_def list_all_length GRID_SIZE_def)

lemma wf_grid_initial: "wf_grid initial_grid"
  by (simp add: wf_grid_def initial_grid_def GRID_SIZE_def list_all_length)

lemma wf_grid_update:
  assumes "wf_grid g" "y < 1000"
  shows "wf_grid (g[y := (g ! y)[x := v]])"
proof -
  have "length (g[y := (g ! y)[x := v]] ! k) = 1000" if "k < 1000" for k
    using that assms wf_grid_length [OF assms(1)] wf_grid_row [OF assms(1)]
    by (cases "k = y") simp_all
  then show ?thesis
    using wf_grid_length [OF assms(1)] by (simp add: wf_grid_def list_all_length GRID_SIZE_def)
qed

lemma cell_before_in_row: "j < n mod 100 \<Longrightarrow> 100 * (n div 100) + j < n" for j n :: nat
  using mult_div_mod_eq [of 100 n] by linarith

lemma cell_in_row_before: "i < n div 100 \<Longrightarrow> j < 100 \<Longrightarrow> 100 * i + j < n" for i j n :: nat
proof -
  assume a: "i < n div 100" "j < 100"
  then have "100 * i + j < 100 * Suc i" by simp
  also have "\<dots> \<le> 100 * (n div 100)" using a(1) by (simp only: Suc_leI mult_le_mono2)
  also have "\<dots> \<le> n" by simp
  finally show ?thesis .
qed



lemma claim_row_none:
  assumes "y < length g" "length (g ! y) = 1000"
    and "\<forall>j. j0 \<le> j \<and> j < 100 \<longrightarrow> truthy (g ! y ! (10 * j))"
  shows "claim_row f g y (10 * j0) = Inr (g, None)"
  using assms(3)
proof (induction "100 - j0" arbitrary: j0)
  case 0
  then show ?case
    by (subst claim_row.simps) (simp add: GRID_SIZE_def)
next
  case (Suc n)
  then have lt: "j0 < 100" by simp
  have t: "truthy (g ! y ! (10 * j0))" using Suc.prems lt by simp
  have "100 - Suc j0 = n" using Suc.hyps(2) by simp
  moreover have "\<forall>j. Suc j0 \<le> j \<and> j < 100 \<longrightarrow> truthy (g ! y ! (10 * j))"
    using Suc.prems by simp
  ultimately have "claim_row f g y (10 * Suc j0) = Inr (g, None)"
    using Suc.hyps(1) [of "Suc j0"] by simp
  then show ?case using lt t assms(1,2)
    by (subst claim_row.simps) (simp add: GRID_SIZE_def TOKEN_SIZE_def grid_read_def add.commute)
qed

lemma claim_row_some:
  assumes "y < length g" "length (g ! y) = 1000" "j1 < 100"
    and "\<not> truthy (g ! y ! (10 * j1))"
    and "j0 \<le> j1"
    and "\<forall>j. j0 \<le> j \<and> j < j1 \<longrightarrow> truthy (g ! y ! (10 * j))"
  shows "claim_row f g y (10 * j0) = Inr (g[y := (g ! y)[10 * j1 := Obj f]], Some (10 * j1, y))"
  using assms(5,6)
proof (induction "j1 - j0" arbitrary: j0)
  case 0
  then have "j0 = j1" by simp
  then show ?case using assms(1-4)
    by (subst claim_row.simps) (simp add: GRID_SIZE_def TOKEN_SIZE_def grid_read_def grid_write_def)
next
  case (Suc n)
  then have lt: "j0 < j1" by simp
  have t: "truthy (g ! y ! (10 * j0))" using Suc.prems lt by simp
  have "j1 - Suc j0 = n" "Suc j0 \<le> j1" using Suc.hyps(2) by simp_all
  moreover have "\<forall>j. Suc j0 \<le> j \<and> j < j1 \<longrightarrow> truthy (g ! y ! (10 * j))"
    using Suc.prems by simp
  ultimately have "claim_row f g y (10 * Suc j0) =
      Inr (g[y := (g ! y)[10 * j1 := Obj f]], Some (10 * j1, y))"
    using Suc.hyps(1) [of "Suc j0"] by simp
  then show ?case using lt t assms(1,2,3)
    by (subst claim_row.simps) (simp add: GRID_SIZE_def TOKEN_SIZE_def grid_read_def add.commute)
qed

lemma claim_rows_none:
  assumes "wf_grid g"
    and "\<forall>i j. i0 \<le> i \<and> i < 100 \<and> j < 100 \<longrightarrow> truthy (g ! (10 * i) ! (10 * j))"
  shows "claim_rows f g (10 * i0) = Inr (g, None)"
  using assms(2)
proof (induction "100 - i0" arbitrary: i0)
  case 0
  then show ?case
    by (subst claim_rows.simps) (simp add: GRID_SIZE_def)
next
  case (Suc n)
  then have lt: "i0 < 100" by simp
  have y: "10 * i0 < length g" using wf_grid_length [OF assms(1)] lt by simp
  have len: "length (g ! (10 * i0)) = 1000" using lt by (simp add: wf_grid_row [OF assms(1)])
  have "\<forall>j. 0 \<le> j \<and> j < 100 \<longrightarrow> truthy (g ! (10 * i0) ! (10 * j))"
    using Suc.prems lt by simp
  then have row: "claim_row f g (10 * i0) 0 = Inr (g, None)"
    using claim_row_none [OF y len, of 0 f] by simp
  have "100 - Suc i0 = n" using Suc.hyps(2) by simp
  moreover have "\<forall>i j. Suc i0 \<le> i \<and> i < 100 \<and> j < 100 \<longrightarrow> truthy (g ! (10 * i) ! (10 * j))"
    using Suc.prems by simp
  ultimately have "claim_rows f g (10 * Suc i0) = Inr (g, None)"
    using Suc.hyps(1) [of "Suc i0"] by simp
  then show ?case using lt row
    by (subst claim_rows.simps) (simp add: GRID_SIZE_def TOKEN_SIZE_def add.commute)
qed

lemma claim_rows_some:
  assumes "wf_grid g" "i1 < 100" "j1 < 100"
    and "\<not> truthy (g ! (10 * i1) ! (10 * j1))"
    and "\<forall>j. j < j1 \<longrightarrow> truthy (g ! (10 * i1) ! (10 * j))"
    and "i0 \<le> i1"
    and "\<forall>i j. i0 \<le> i \<and> i < i1 \<and> j < 100 \<longrightarrow> truthy (g ! (10 * i) ! (10 * j))"
  shows "claim_rows f g (10 * i0) =
           Inr (g[10 * i1 := (g ! (10 * i1))[10 * j1 := Obj f]], Some (10 * j1, 10 * i1))"
  using assms(6,7)
proof (induction "i1 - i0" arbitrary: i0)
  case 0
  then have eq: "i0 = i1" by simp
  have y: "10 * i1 < length g" using wf_grid_length [OF assms(1)] assms(2) by simp
  have len: "length (g ! (10 * i1)) = 1000" using assms(2) by (simp add: wf_grid_row [OF assms(1)])
  have "\<forall>j. 0 \<le> j \<and> j < j1 \<longrightarrow> truthy (g ! (10 * i1) ! (10 * j))"
    using assms(5) by simp
  then have row: "claim_row f g (10 * i1) 0 =
      Inr (g[10 * i1 := (g ! (10 * i1))[10 * j1 := Obj f]], Some (10 * j1, 10 * i1))"
    using claim_row_some [OF y len assms(3,4), of 0 f] by simp
  show ?case using assms(2) row unfolding eq
    by (subst claim_rows.simps) (simp add: GRID_SIZE_def)
next
  case (Suc n)
  then have lt: "i0 < i1" by simp
  then have lt100: "i0 < 100" using assms(2) by simp
  have y: "10 * i0 < length g" using wf_grid_length [OF assms(1)] lt100 by simp
  have len: "length (g ! (10 * i0)) = 1000" using lt100 by (simp add: wf_grid_row [OF assms(1)])
  have "\<forall>j. 0 \<le> j \<and> j < 100 \<longrightarrow> truthy (g ! (10 * i0) ! (10 * j))"
    using Suc.prems lt by simp
  then have row: "claim_row f g (10 * i0) 0 = Inr (g, None)"
    using claim_row_none [OF y len, of 0 f] by simp
  have "i1 - Suc i0 = n" "Suc i0 \<le> i1" using Suc.hyps(2) by simp_all
  moreover have "\<forall>i j. Suc i0 \<le> i \<and> i < i1 \<and> j < 100 \<longrightarrow> truthy (g ! (10 * i) ! (10 * j))"
    using Suc.prems by simp
  ultimately have "claim_rows f g (10 * Suc i0) =
      Inr (g[10 * i1 := (g ! (10 * i1))[10 * j1 := Obj f]], Some (10 * j1, 10 * i1))"
    using Suc.hyps(1) [of "Suc i0"] by simp
  then show ?case using lt100 row
    by (subst claim_rows.simps) (simp add: GRID_SIZE_def TOKEN_SIZE_def add.commute)
qed

lemma filled_initial: "filled 0 initial_grid"
  using wf_grid_initial
  by (simp add: filled_def initial_grid_def GRID_SIZE_def)

lemma claim_rows_full:
  assumes "filled n g" "10000 \<le> n"
  shows "claim_rows f g 0 = Inr (g, None)"
proof -
  have "\<forall>i j. 0 \<le> i \<and> i < 100 \<and> j < 100 \<longrightarrow> truthy (g ! (10 * i) ! (10 * j))"
    using assms by (auto simp: filled_def)
  then show ?thesis
    using claim_rows_none [of g 0 f] assms(1) by (simp add: filled_def)
qed

lemma claim_rows_next:
  assumes "filled n g" "n < 10000"
  shows "claim_rows f g 0 =
           Inr (g[10 * (n div 100) := (g ! (10 * (n div 100)))[10 * (n mod 100) := Obj f]],
                Some (10 * (n mod 100), 10 * (n div 100)))"
proof -
  have wf: "wf_grid g" using assms(1) by (simp add: filled_def)
  have cells: "\<And>i j. i < 100 \<Longrightarrow> j < 100 \<Longrightarrow> truthy (g ! (10 * i) ! (10 * j)) = (100 * i + j < n)"
    using assms(1) by (simp add: filled_def)
  have i1: "n div 100 < 100" and j1: "n mod 100 < 100" using assms(2) by simp_all
  have a: "\<not> truthy (g ! (10 * (n div 100)) ! (10 * (n mod 100)))"
    using cells [OF i1 j1] by simp
  have b: "\<forall>j. j < n mod 100 \<longrightarrow> truthy (g ! (10 * (n div 100)) ! (10 * j))"
  proof (intro allI impI)
    fix j :: nat assume h: "j < n mod 100"
    then have "j < 100" using j1 by simp
    then show "truthy (g ! (10 * (n div 100)) ! (10 * j))"
      using cells [OF i1] cell_before_in_row [OF h] by simp
  qed
  have c: "\<forall>i j. 0 \<le> i \<and> i < n div 100 \<and> j < 100 \<longrightarrow> truthy (g ! (10 * i) ! (10 * j))"
  proof (intro allI impI)
    fix i j :: nat assume h: "0 \<le> i \<and> i < n div 100 \<and> j < 100"
    then have "i < 100" using i1 by simp
    then show "truthy (g ! (10 * i) ! (10 * j))"
      using cells [of i j] h cell_in_row_before [of i n j] by simp
  qed
  show ?thesis
    using claim_rows_some [OF wf i1 j1 a b _ c, of f] by simp
qed

lemma filled_step:
  assumes "filled n g" "n < 10000"
  shows "filled (Suc n) (g[10 * (n div 100) := (g ! (10 * (n div 100)))[10 * (n mod 100) := Obj f]])"
proof -
  let ?i = "n div 100" and ?j = "n mod 100"
  let ?g' = "g[10 * ?i := (g ! (10 * ?i))[10 * ?j := Obj f]]"
  have wf: "wf_grid g" using assms(1) by (simp add: filled_def)
  have i1: "?i < 100" and j1: "?j < 100" using assms(2) by simp_all
  have len: "length g = 1000" by (rule wf_grid_length [OF wf])
  have rowlen: "length (g ! (10 * ?i)) = 1000" using i1 by (simp add: wf_grid_row [OF wf])
  have wf': "wf_grid ?g'" using i1 by (intro wf_grid_update [OF wf]) simp
  have cells: "truthy (?g' ! (10 * i) ! (10 * j)) = (100 * i + j < Suc n)"
    if h: "i < 100" "j < 100" for i j
  proof (cases "i = ?i \<and> j = ?j")
    case True
    then have "100 * i + j = n" by simp
    moreover have "?g' ! (10 * i) ! (10 * j) = Obj f"
      using True i1 j1 len rowlen by simp
    ultimately show ?thesis by simp
  next
    case False
    then have ne: "100 * i + j \<noteq> n" using h by auto
    have "?g' ! (10 * i) ! (10 * j) = g ! (10 * i) ! (10 * j)"
      using False h i1 len by (cases "i = ?i") simp_all
    moreover have "truthy (g ! (10 * i) ! (10 * j)) = (100 * i + j < n)"
      using assms(1) h by (simp add: filled_def)
    ultimately show ?thesis using ne by auto
  qed
  show ?thesis unfolding filled_def using wf' cells by blast
qed

lemma push_position_cases:
  "push_position up f p =
     (if up f = None \<and> inherited f then Inl TypeError else Inr (appended up f p))"
  by (simp add: push_position_def appended_def split: option.splits)

lemma claim_next_state:
  assumes "filled n (grid s)" "n < 10000"
  shows "claim f s =
           (if userPixels s f = None \<and> inherited f
            then (Inl TypeError,
                  s\<lparr>grid := (grid s)[10 * (n div 100) := (grid s ! (10 * (n div 100)))[10 * (n mod 100) := Obj f]]\<rparr>)
            else (Inr (Some (10 * (n mod 100), 10 * (n div 100))),
                  \<lparr>grid = (grid s)[10 * (n div 100) := (grid s ! (10 * (n div 100)))[10 * (n mod 100) := Obj f]],
                   userPixels = appended (userPixels s) f (10 * (n mod 100), 10 * (n div 100))\<rparr>))"
  using claim_rows_next [OF assms, of f] by (simp add: claim_def push_position_cases)

lemma claim_next_filled:
  assumes "filled n (grid s)" "n < 10000"
  shows "filled (Suc n) (grid (snd (claim f s)))"
  using filled_step [OF assms, of f] by (simp add: claim_next_state [OF assms])

lemma claim_full:
  assumes "filled n (grid s)" "10000 \<le> n"
  shows "claim f s = (Inr None, s)"
  using claim_rows_full [OF assms, of f] by (simp add: claim_def)

lemma plain_ids: "\<not> inherited ''42''" "\<not> inherited ''7''" "\<not> inherited ''8''" "inherited ''constructor''"
  by (simp_all add: inherited_def Object_prototype_keys_def)

section \<open>One claim operation on a well-formed grid\<close>

lemma cell_update:
  assumes "y < length g" "x < length (g ! y)"
  shows "g[y := (g ! y)[x := v]] ! y' ! x' = (if y' = y \<and> x' = x then v else g ! y' ! x')"
  using assms by (cases "y' = y") simp_all

lemma claim_rows_cases:
  assumes "wf_grid g"
  shows "(claim_rows f g 0 = Inr (g, None)
            \<and> (\<forall>i j. i < 100 \<and> j < 100 \<longrightarrow> truthy (g ! (10 * i) ! (10 * j))))
       \<or> (\<exists>i j. i < 100 \<and> j < 100 \<and> \<not> truthy (g ! (10 * i) ! (10 * j))
            \<and> claim_rows f g 0 =
                Inr (g[10 * i := (g ! (10 * i))[10 * j := Obj f]], Some (10 * j, 10 * i)))"
proof (cases "\<forall>i j. i < 100 \<and> j < 100 \<longrightarrow> truthy (g ! (10 * i) ! (10 * j))")
  case True
  then have "claim_rows f g 0 = Inr (g, None)"
    using claim_rows_none [OF assms, of 0 f] by simp
  then show ?thesis using True by blast
next
  case False
  define P where "P i = (i < 100 \<and> (\<exists>j. j < 100 \<and> \<not> truthy (g ! (10 * i) ! (10 * j))))" for i :: nat
  have ex: "\<exists>i. P i" using False unfolding P_def by blast
  define i1 where "i1 = (LEAST i. P i)"
  have Pi1: "P i1" unfolding i1_def using ex by (rule LeastI_ex)
  have before_i1: "\<not> P i" if "i < i1" for i
    using that not_less_Least unfolding i1_def by blast
  define Q where "Q j = (j < 100 \<and> \<not> truthy (g ! (10 * i1) ! (10 * j)))" for j :: nat
  have exQ: "\<exists>j. Q j" using Pi1 unfolding P_def Q_def by blast
  define j1 where "j1 = (LEAST j. Q j)"
  have Qj1: "Q j1" unfolding j1_def using exQ by (rule LeastI_ex)
  have before_j1: "\<not> Q j" if "j < j1" for j
    using that not_less_Least unfolding j1_def by blast
  have i1: "i1 < 100" using Pi1 by (simp add: P_def)
  have j1: "j1 < 100" and falsy: "\<not> truthy (g ! (10 * i1) ! (10 * j1))"
    using Qj1 by (simp_all add: Q_def)
  have b: "\<forall>j. j < j1 \<longrightarrow> truthy (g ! (10 * i1) ! (10 * j))"
  proof (intro allI impI)
    fix j :: nat assume h: "j < j1"
    then have "j < 100" using j1 by simp
    then show "truthy (g ! (10 * i1) ! (10 * j))" using before_j1 [OF h] by (simp add: Q_def)
  qed
  have c: "\<forall>i j. 0 \<le> i \<and> i < i1 \<and> j < 100 \<longrightarrow> truthy (g ! (10 * i) ! (10 * j))"
  proof (intro allI impI)
    fix i j :: nat assume h: "0 \<le> i \<and> i < i1 \<and> j < 100"
    then have "i < 100" "\<not> P i" using i1 before_i1 by simp_all
    then show "truthy (g ! (10 * i) ! (10 * j))" using h unfolding P_def by blast
  qed
  have "claim_rows f g 0 =
      Inr (g[10 * i1 := (g ! (10 * i1))[10 * j1 := Obj f]], Some (10 * j1, 10 * i1))"
    using claim_rows_some [OF assms i1 j1 falsy b _ c, of f] by simp
  then show ?thesis using i1 j1 falsy by blast
qed

lemma claim_cases:
  assumes "wf_grid (grid s)"
  shows "(claim f s = (Inr None, s)
            \<and> (\<forall>i j. i < 100 \<and> j < 100 \<longrightarrow> truthy (grid s ! (10 * i) ! (10 * j))))
       \<or> (\<exists>x y. x < 1000 \<and> y < 1000 \<and> \<not> truthy (grid s ! y ! x)
            \<and> \<not> (userPixels s f = None \<and> inherited f)
            \<and> claim f s =
                (Inr (Some (x, y)),
                 \<lparr>grid = (grid s)[y := (grid s ! y)[x := Obj f]],
                  userPixels = appended (userPixels s) f (x, y)\<rparr>))
       \<or> (\<exists>x y. x < 1000 \<and> y < 1000 \<and> \<not> truthy (grid s ! y ! x)
            \<and> userPixels s f = None \<and> inherited f
            \<and> claim f s = (Inl TypeError, s\<lparr>grid := (grid s)[y := (grid s ! y)[x := Obj f]]\<rparr>))"
  using claim_rows_cases [OF assms, of f]
proof (elim disjE conjE exE)
  assume "claim_rows f (grid s) 0 = Inr (grid s, None)"
    and "\<forall>i j. i < 100 \<and> j < 100 \<longrightarrow> truthy (grid s ! (10 * i) ! (10 * j))"
  then show ?thesis by (simp add: claim_def)
next
  fix i j :: nat
  assume h: "i < 100" "j < 100" "\<not> truthy (grid s ! (10 * i) ! (10 * j))"
    and r: "claim_rows f (grid s) 0 =
      Inr ((grid s)[10 * i := (grid s ! (10 * i))[10 * j := Obj f]], Some (10 * j, 10 * i))"
  have b: "10 * j < 1000" "10 * i < 1000" using h by simp_all
  show ?thesis
  proof (cases "userPixels s f = None \<and> inherited f")
    case True
    then have "claim f s =
        (Inl TypeError, s\<lparr>grid := (grid s)[10 * i := (grid s ! (10 * i))[10 * j := Obj f]]\<rparr>)"
      using r by (simp add: claim_def push_position_cases)
    then show ?thesis using b h(3) True by blast
  next
    case False
    then have "claim f s =
        (Inr (Some (10 * j, 10 * i)),
         \<lparr>grid = (grid s)[10 * i := (grid s ! (10 * i))[10 * j := Obj f]],
          userPixels = appended (userPixels s) f (10 * j, 10 * i)\<rparr>)"
      using r by (simp add: claim_def push_position_cases)
    then show ?thesis using b h(3) False by blast
  qed
qed

lemma claim_grid:
  assumes "wf_grid (grid s)"
  shows "grid (snd (claim f s)) = grid s
       \<or> (\<exists>x y. x < 1000 \<and> y < 1000 \<and> \<not> truthy (grid s ! y ! x)
            \<and> grid (snd (claim f s)) = (grid s)[y := (grid s ! y)[x := Obj f]])"
  using claim_cases [OF assms, of f] by (elim disjE conjE exE) auto

lemma claim_wf:
  assumes "wf_grid (grid s)"
  shows "wf_grid (grid (snd (claim f s)))"
  using claim_grid [OF assms, of f] assms by (auto simp: wf_grid_update)

lemma claim_plain:
  assumes "wf_grid (grid s)" "\<not> inherited f"
  shows "\<not> isl (fst (claim f s))"
  using claim_cases [OF assms(1), of f] assms(2) by (elim disjE conjE exE) simp_all

lemma claim_success:
  assumes "wf_grid (grid s)" "claim f s = (Inr (Some (x, y)), s')"
  shows "x < 1000" "y < 1000" "\<not> truthy (grid s ! y ! x)"
    "s' = \<lparr>grid = (grid s)[y := (grid s ! y)[x := Obj f]],
           userPixels = appended (userPixels s) f (x, y)\<rparr>"
  using claim_cases [OF assms(1), of f] assms(2) by (elim disjE conjE exE; simp)+

lemma claim_writes_cell:
  assumes "wf_grid (grid s)" "claim f s = (Inr (Some (x, y)), s')"
  shows "\<not> truthy (grid s ! y ! x)" "grid s' ! y ! x = Obj f"
proof -
  note c = claim_success [OF assms]
  have len: "y < length (grid s)" "x < length (grid s ! y)"
    using c(1,2) wf_grid_length [OF assms(1)] wf_grid_row [OF assms(1), of y] by simp_all
  show "\<not> truthy (grid s ! y ! x)" by (rule c(3))
  show "grid s' ! y ! x = Obj f" unfolding c(4) using cell_update [OF len] by simp
qed

text \<open>
  C10. On a state whose grid has the shape of the initial one, a successful claim by
  \<open>f\<close> returning \<open>(x, y)\<close> writes \<open>{ fid: f }\<close> into the cell \<open>grid[y][x]\<close>, which was
  unclaimed, and changes no other cell, no row length and not the number of rows; it
  appends \<open>(x, y)\<close> to the list of \<open>f\<close> (the empty list when \<open>f\<close> had none), keeping the
  earlier entries and their order, and leaves the list of every other owner as it was.
\<close>

theorem claim_frame:
  assumes "wf_grid (grid s)" "claim f s = (Inr (Some (x, y)), s')"
  shows "x < GRID_SIZE \<and> y < GRID_SIZE \<and> \<not> truthy (grid s ! y ! x) \<and> grid s' ! y ! x = Obj f
       \<and> grid s' = (grid s)[y := (grid s ! y)[x := Obj f]]
       \<and> length (grid s') = length (grid s)
       \<and> (\<forall>y'. length (grid s' ! y') = length (grid s ! y'))
       \<and> (\<forall>x' y'. (x', y') \<noteq> (x, y) \<longrightarrow> grid s' ! y' ! x' = grid s ! y' ! x')
       \<and> userPixels s' f = Some ((case userPixels s f of None \<Rightarrow> [] | Some ps \<Rightarrow> ps) @ [(x, y)])
       \<and> (\<forall>f'. f' \<noteq> f \<longrightarrow> userPixels s' f' = userPixels s f')"
proof -
  note c = claim_success [OF assms]
  note s' = c(4)
  have len: "y < length (grid s)" "x < length (grid s ! y)"
    using c(1,2) wf_grid_length [OF assms(1)] wf_grid_row [OF assms(1), of y] by simp_all
  have rows: "length (grid s' ! y') = length (grid s ! y')" for y'
    unfolding s' using len by (cases "y' = y") simp_all
  have cells: "grid s' ! y' ! x' = grid s ! y' ! x'" if "(x', y') \<noteq> (x, y)" for x' y'
    unfolding s' using that cell_update [OF len] by auto
  have own: "userPixels s' f = Some ((case userPixels s f of None \<Rightarrow> [] | Some ps \<Rightarrow> ps) @ [(x, y)])"
    unfolding s' by (simp add: appended_def)
  have others: "userPixels s' f' = userPixels s f'" if "f' \<noteq> f" for f'
    unfolding s' using that by (simp add: appended_def)
  have "grid s' ! y ! x = Obj f" unfolding s' using cell_update [OF len] by simp
  then show ?thesis using c(1-3) rows cells own others s' by (simp add: GRID_SIZE_def)
qed

theorem claim_frame_witness:
  "\<exists>s'. claim ''42'' initial_state = (Inr (Some (0, 0)), s')
     \<and> grid s' ! 0 ! 0 = Obj ''42'' \<and> grid s' ! 0 ! 10 = Null \<and> grid s' ! 10 ! 0 = Null
     \<and> userPixels s' ''42'' = Some [(0, 0)] \<and> userPixels s' ''7'' = None"
proof -
  have wf: "wf_grid (grid initial_state)" by (simp add: initial_state_def wf_grid_initial)
  have f0: "filled 0 (grid initial_state)" by (simp add: initial_state_def filled_initial)
  obtain s' where c: "claim ''42'' initial_state = (Inr (Some (0, 0)), s')"
    using claim_next_state [OF f0, of "''42''"] plain_ids by simp
  have null: "grid initial_state ! 0 ! 10 = Null" "grid initial_state ! 10 ! 0 = Null"
    by (simp_all add: initial_state_def initial_grid_def GRID_SIZE_def)
  have none: "userPixels initial_state ''42'' = None" "userPixels initial_state ''7'' = None"
    by (simp_all add: initial_state_def)
  note fr = claim_frame [OF wf c]
  have a: "grid s' ! 0 ! 0 = Obj ''42''" using fr by blast
  have b: "\<forall>x' y'. (x', y') \<noteq> (0, 0) \<longrightarrow> grid s' ! y' ! x' = grid initial_state ! y' ! x'"
    using fr by blast
  have u: "userPixels s' ''42'' = Some [(0, 0)]" using fr none by simp
  have v: "\<forall>f'. f' \<noteq> ''42'' \<longrightarrow> userPixels s' f' = userPixels initial_state f'"
    using fr by blast
  have "grid s' ! 0 ! 10 = Null" "grid s' ! 10 ! 0 = Null" "userPixels s' ''7'' = None"
    using b v null none by simp_all
  with a u have "grid s' ! 0 ! 0 = Obj ''42'' \<and> grid s' ! 0 ! 10 = Null
      \<and> grid s' ! 10 ! 0 = Null \<and> userPixels s' ''42'' = Some [(0, 0)] \<and> userPixels s' ''7'' = None"
    by simp
  then show ?thesis using c by blast
qed

section \<open>Sequences of claims: the order of the granted cells\<close>

lemma claims_Cons:
  "fst (claims (f # fs) s) = fst (claim f s) # fst (claims fs (snd (claim f s)))"
  "snd (claims (f # fs) s) = snd (claims fs (snd (claim f s)))"
  by (simp_all split: prod.splits)

lemma claims_wf:
  assumes "wf_grid (grid s)"
  shows "wf_grid (grid (snd (claims fs s)))"
  using assms
proof (induction fs arbitrary: s)
  case Nil
  then show ?case by simp
next
  case (Cons f fs)
  from Cons.IH [OF claim_wf [OF Cons.prems, of f]] show ?case by (simp del: claims.simps add: claims_Cons)
qed

lemma claims_plain:
  assumes "wf_grid (grid s)" "\<forall>f \<in> set fs. \<not> inherited f"
  shows "\<forall>r \<in> set (fst (claims fs s)). \<not> isl r"
  using assms
proof (induction fs arbitrary: s)
  case Nil
  then show ?case by simp
next
  case (Cons f fs)
  have "\<not> isl (fst (claim f s))" using claim_plain [OF Cons.prems(1), of f] Cons.prems(2) by simp
  moreover have "\<forall>r \<in> set (fst (claims fs (snd (claim f s)))). \<not> isl r"
    using Cons.IH [OF claim_wf [OF Cons.prems(1), of f]] Cons.prems(2) by simp
  ultimately show ?case by (simp del: claims.simps add: claims_Cons)
qed

lemma claims_filled:
  assumes "filled n (grid s)" "n \<le> 10000"
  shows "filled (min (n + length fs) 10000) (grid (snd (claims fs s)))"
  using assms
proof (induction fs arbitrary: n s)
  case Nil
  then show ?case by simp
next
  case (Cons f fs)
  show ?case
  proof (cases "n < 10000")
    case True
    have f1: "filled (Suc n) (grid (snd (claim f s)))"
      using claim_next_filled [OF Cons.prems(1) True] .
    have eq: "min (n + length (f # fs)) 10000 = min (Suc n + length fs) 10000" by simp
    from Cons.IH [OF f1] True show ?thesis unfolding eq by (simp del: claims.simps add: claims_Cons)
  next
    case False
    then have n: "n = 10000" using Cons.prems(2) by simp
    have c: "claim f s = (Inr None, s)" using claim_full [OF Cons.prems(1)] n by simp
    have eq: "min (n + length (f # fs)) 10000 = min (n + length fs) 10000" using n by simp
    from Cons.IH [OF Cons.prems] show ?thesis unfolding eq by (simp del: claims.simps add: claims_Cons c)
  qed
qed

lemma claims_granted:
  assumes "filled n (grid s)" "n \<le> 10000" "\<forall>r \<in> set (fst (claims fs s)). \<not> isl r"
  shows "granted (fst (claims fs s)) =
           map (\<lambda>k. (10 * (k mod 100), 10 * (k div 100))) [n ..< min (n + length fs) 10000]"
  using assms
proof (induction fs arbitrary: n s)
  case Nil
  then show ?case by simp
next
  case (Cons f fs)
  have r: "\<not> isl (fst (claim f s))"
    and rs: "\<forall>r \<in> set (fst (claims fs (snd (claim f s)))). \<not> isl r"
    using Cons.prems(3) by (simp_all del: claims.simps add: claims_Cons)
  show ?case
  proof (cases "n < 10000")
    case True
    have c: "fst (claim f s) = Inr (Some (10 * (n mod 100), 10 * (n div 100)))"
      using r claim_next_state [OF Cons.prems(1) True, of f] by (simp split: if_splits)
    have f1: "filled (Suc n) (grid (snd (claim f s)))"
      using claim_next_filled [OF Cons.prems(1) True] .
    have g: "granted (fst (claims fs (snd (claim f s)))) =
        map (\<lambda>k. (10 * (k mod 100), 10 * (k div 100))) [Suc n ..< min (Suc n + length fs) 10000]"
      using Cons.IH [OF f1 _ rs] True by simp
    have lt: "n < min (Suc n + length fs) 10000" using True by simp
    have eq: "min (n + length (f # fs)) 10000 = min (Suc n + length fs) 10000" by simp
    show ?thesis unfolding eq claims_Cons c using g upt_conv_Cons [OF lt] by simp
  next
    case False
    then have n: "n = 10000" using Cons.prems(2) by simp
    have c: "claim f s = (Inr None, s)" using claim_full [OF Cons.prems(1)] n by simp
    have g: "granted (fst (claims fs s)) =
        map (\<lambda>k. (10 * (k mod 100), 10 * (k div 100))) [n ..< min (n + length fs) 10000]"
      using Cons.IH [OF Cons.prems(1,2)] rs c by simp
    have eq: "min (n + length (f # fs)) 10000 = min (n + length fs) 10000" using n by simp
    show ?thesis unfolding eq claims_Cons c using g by simp
  qed
qed

lemma initial_filled: "filled 0 (grid initial_state)" "wf_grid (grid initial_state)"
  by (simp_all add: initial_state_def filled_initial wf_grid_initial)



section \<open>Sequences of claims: cells are claimed once\<close>

lemma granted_other: "\<forall>p. r \<noteq> Inr (Some p) \<Longrightarrow> granted (r # rs) = granted rs"
proof (cases r)
  case (Inl e)
  then show ?thesis by simp
next
  case (Inr a)
  assume "\<forall>p. r \<noteq> Inr (Some p)"
  then have "a = None" using Inr by (cases a) simp_all
  then show ?thesis using Inr by simp
qed

lemma claim_keeps:
  assumes "wf_grid (grid s)" "truthy (grid s ! y ! x)"
  shows "grid (snd (claim f s)) ! y ! x = grid s ! y ! x"
  using claim_grid [OF assms(1), of f]
proof (elim disjE exE conjE)
  assume "grid (snd (claim f s)) = grid s"
  then show ?thesis by simp
next
  fix x0 y0 :: nat
  assume b: "x0 < 1000" "y0 < 1000" and falsy: "\<not> truthy (grid s ! y0 ! x0)"
    and g: "grid (snd (claim f s)) = (grid s)[y0 := (grid s ! y0)[x0 := Obj f]]"
  have len: "y0 < length (grid s)" "x0 < length (grid s ! y0)"
    using b wf_grid_length [OF assms(1)] wf_grid_row [OF assms(1), of y0] by simp_all
  have "\<not> (y = y0 \<and> x = x0)" using assms(2) falsy by auto
  then show ?thesis unfolding g using cell_update [OF len, of "Obj f" y x] by auto
qed

lemma claim_granted_cell:
  assumes "wf_grid (grid s)" "fst (claim f s) = Inr (Some (x, y))"
  shows "x < 1000" "y < 1000" "\<not> truthy (grid s ! y ! x)" "truthy (grid (snd (claim f s)) ! y ! x)"
proof -
  have c: "claim f s = (Inr (Some (x, y)), snd (claim f s))"
    using assms(2) by (cases "claim f s") simp
  show "x < 1000" "y < 1000" "\<not> truthy (grid s ! y ! x)"
    using claim_success [OF assms(1) c] by simp_all
  show "truthy (grid (snd (claim f s)) ! y ! x)"
    using claim_writes_cell(2) [OF assms(1) c] by simp
qed

lemma claims_cells:
  assumes "wf_grid (grid s)"
  shows "(\<forall>x y. truthy (grid s ! y ! x) \<longrightarrow> grid (snd (claims fs s)) ! y ! x = grid s ! y ! x)
       \<and> (\<forall>x y. (x, y) \<in> set (granted (fst (claims fs s))) \<longrightarrow>
             x < 1000 \<and> y < 1000 \<and> \<not> truthy (grid s ! y ! x)
             \<and> truthy (grid (snd (claims fs s)) ! y ! x))
       \<and> distinct (granted (fst (claims fs s)))"
  using assms
proof (induction fs arbitrary: s)
  case Nil
  then show ?case by simp
next
  case (Cons f fs)
  let ?s1 = "snd (claim f s)"
  let ?s' = "snd (claims fs ?s1)"
  let ?rs = "fst (claims fs ?s1)"
  have wf1: "wf_grid (grid ?s1)" using claim_wf [OF Cons.prems] .
  from Cons.IH [OF wf1]
  have keep1: "\<And>x y. truthy (grid ?s1 ! y ! x) \<Longrightarrow> grid ?s' ! y ! x = grid ?s1 ! y ! x"
    and new1: "\<And>x y. (x, y) \<in> set (granted ?rs) \<Longrightarrow>
                 x < 1000 \<and> y < 1000 \<and> \<not> truthy (grid ?s1 ! y ! x) \<and> truthy (grid ?s' ! y ! x)"
    and d1: "distinct (granted ?rs)"
    by blast+
  have keep0: "grid ?s1 ! y ! x = grid s ! y ! x" if "truthy (grid s ! y ! x)" for x y
    using claim_keeps [OF Cons.prems that] .
  have keep: "grid ?s' ! y ! x = grid s ! y ! x" if "truthy (grid s ! y ! x)" for x y
    using keep0 [OF that] keep1 [of y x] that by simp
  have later: "x < 1000 \<and> y < 1000 \<and> \<not> truthy (grid s ! y ! x) \<and> truthy (grid ?s' ! y ! x)"
    if "(x, y) \<in> set (granted ?rs)" for x y
  proof -
    have "\<not> truthy (grid s ! y ! x)" using new1 [OF that] keep0 [of y x] by auto
    then show ?thesis using new1 [OF that] by simp
  qed
  have new: "x < 1000 \<and> y < 1000 \<and> \<not> truthy (grid s ! y ! x) \<and> truthy (grid ?s' ! y ! x)"
    if "(x, y) \<in> set (granted (fst (claim f s) # ?rs))" for x y
  proof (cases "fst (claim f s) = Inr (Some (x, y))")
    case True
    note c = claim_granted_cell [OF Cons.prems True]
    have "truthy (grid ?s' ! y ! x)" using keep1 [of y x] c(4) by simp
    then show ?thesis using c by simp
  next
    case False
    show ?thesis
    proof (cases "\<exists>p. fst (claim f s) = Inr (Some p)")
      case True
      then obtain p where p: "fst (claim f s) = Inr (Some p)" by blast
      then have "(x, y) \<in> set (granted ?rs)" using that False by auto
      then show ?thesis by (rule later)
    next
      case False
      then have "granted (fst (claim f s) # ?rs) = granted ?rs" by (intro granted_other) simp
      then have "(x, y) \<in> set (granted ?rs)" using that by simp
      then show ?thesis by (rule later)
    qed
  qed
  have d: "distinct (granted (fst (claim f s) # ?rs))"
  proof (cases "\<exists>p. fst (claim f s) = Inr (Some p)")
    case True
    then obtain x y where h: "fst (claim f s) = Inr (Some (x, y))" by auto
    note c = claim_granted_cell [OF Cons.prems h]
    have "(x, y) \<notin> set (granted ?rs)" using new1 [of x y] c(4) by auto
    then show ?thesis using d1 h by simp
  next
    case False
    then have "granted (fst (claim f s) # ?rs) = granted ?rs" by (intro granted_other) simp
    then show ?thesis using d1 by simp
  qed
  show ?case using keep new d by (simp del: claims.simps add: claims_Cons)
qed

text \<open>
  C2. From a state whose grid has the shape of the initial one, through every sequence
  of claim operations, also one in which an append throws: the grid keeps its shape; a
  cell that is claimed keeps its value to the end (it is not claimed again and does not
  become unclaimed); every granted coordinate was unclaimed before the sequence and is
  claimed after it; no coordinate is granted twice; and when no id of the sequence
  names an inherited property of a plain object, no operation throws.
\<close>

theorem claimed_once:
  assumes "wf_grid (grid s)"
  shows "case claims fs s of
           (rs, s') \<Rightarrow>
             wf_grid (grid s')
             \<and> (\<forall>x y. truthy (grid s ! y ! x) \<longrightarrow> grid s' ! y ! x = grid s ! y ! x)
             \<and> (\<forall>x y. (x, y) \<in> set (granted rs) \<longrightarrow>
                   x < GRID_SIZE \<and> y < GRID_SIZE \<and> \<not> truthy (grid s ! y ! x) \<and> truthy (grid s' ! y ! x))
             \<and> distinct (granted rs)
             \<and> ((\<forall>f \<in> set fs. \<not> inherited f) \<longrightarrow> (\<forall>r \<in> set rs. \<not> isl r))"
proof -
  have "(\<forall>f \<in> set fs. \<not> inherited f) \<longrightarrow> (\<forall>r \<in> set (fst (claims fs s)). \<not> isl r)"
    using claims_plain [OF assms] by blast
  then show ?thesis
    using claims_cells [OF assms, of fs] claims_wf [OF assms, of fs]
    by (cases "claims fs s") (simp add: GRID_SIZE_def)
qed

theorem claimed_once_witness:
  "wf_grid (grid initial_state)
   \<and> (\<exists>rs s'. claims [''42'', ''constructor'', ''42''] initial_state = (rs, s')
        \<and> rs = [Inr (Some (0, 0)), Inl TypeError, Inr (Some (20, 0))]
        \<and> granted rs = [(0, 0), (20, 0)] \<and> distinct (granted rs)
        \<and> truthy (grid s' ! 0 ! 0) \<and> truthy (grid s' ! 0 ! 20))"
proof -
  let ?fs = "[''42'', ''constructor'', ''42'']"
  have wf: "wf_grid (grid initial_state)" by (rule initial_filled(2))
  let ?s1 = "snd (claim ''42'' initial_state)"
  let ?s2 = "snd (claim ''constructor'' ?s1)"
  let ?s3 = "snd (claim ''42'' ?s2)"
  have c1: "fst (claim ''42'' initial_state) = Inr (Some (0, 0))"
    using claim_next_state [OF initial_filled(1), of "''42''"] plain_ids by simp
  have f1: "filled 1 (grid ?s1)" using claim_next_filled [OF initial_filled(1), of "''42''"] by simp
  have u1: "userPixels ?s1 ''constructor'' = None"
    using claim_next_state [OF initial_filled(1), of "''42''"] plain_ids
    by (simp add: appended_def initial_state_def)
  have c2: "fst (claim ''constructor'' ?s1) = Inl TypeError"
    using claim_next_state [OF f1, of "''constructor''"] plain_ids u1 by simp
  have f2: "filled 2 (grid ?s2)"
    using claim_next_filled [OF f1, of "''constructor''"] by (simp add: numeral_2_eq_2)
  have c3: "fst (claim ''42'' ?s2) = Inr (Some (20, 0))"
    using claim_next_state [OF f2, of "''42''"] plain_ids by simp
  have run: "claims ?fs initial_state = ([Inr (Some (0, 0)), Inl TypeError, Inr (Some (20, 0))], ?s3)"
    using c1 c2 c3 by (simp del: claims.simps(2) add: prod_eq_iff claims_Cons)
  from claimed_once [OF wf, of ?fs] run
  have "(\<forall>x y. (x, y) \<in> set (granted [Inr (Some (0, 0)), Inl TypeError, Inr (Some (20, 0))]) \<longrightarrow>
           x < GRID_SIZE \<and> y < GRID_SIZE \<and> \<not> truthy (grid initial_state ! y ! x) \<and> truthy (grid ?s3 ! y ! x))"
    and "distinct (granted [Inr (Some (0, 0)), Inl TypeError, Inr (Some (20, 0))])"
    by simp_all
  then have "distinct (granted [Inr (Some (0, 0)), Inl TypeError, Inr (Some (20, 0))])
      \<and> truthy (grid ?s3 ! 0 ! 0) \<and> truthy (grid ?s3 ! 0 ! 20)"
    by simp
  then show ?thesis using wf run by simp
qed

section \<open>The grid and \<open>userPixels\<close>\<close>

lemma consistent_initial: "consistent initial_state"
  by (simp add: consistent_def initial_state_def initial_grid_def GRID_SIZE_def)

lemma appended_same:
  "appended up f p f = Some ((case up f of None \<Rightarrow> [] | Some ps \<Rightarrow> ps) @ [p])"
  by (simp add: appended_def)

lemma appended_other: "f' \<noteq> f \<Longrightarrow> appended up f p f' = up f'"
  by (simp add: appended_def)

lemma consistent_step:
  assumes wf: "wf_grid (grid s)" and con: "consistent s"
    and b: "x < 1000" "y < 1000" and falsy: "\<not> truthy (grid s ! y ! x)"
  shows "consistent \<lparr>grid = (grid s)[y := (grid s ! y)[x := Obj f]],
                     userPixels = appended (userPixels s) f (x, y)\<rparr>"
    (is "consistent ?s1")
proof -
  have listed: "x' < 1000 \<and> y' < 1000 \<and> grid s ! y' ! x' = Obj f'"
    if "userPixels s f' = Some ps" "(x', y') \<in> set ps" for f' ps x' y'
    using con that unfolding consistent_def GRID_SIZE_def by blast
  have once: "\<exists>ps. userPixels s f' = Some ps \<and> count_list ps (x', y') = 1"
    if "x' < 1000" "y' < 1000" "grid s ! y' ! x' = Obj f'" for f' x' y'
    using con that unfolding consistent_def GRID_SIZE_def by blast
  have nowhere_else: "(x', y') \<notin> set ps'"
    if "x' < 1000" "y' < 1000" "grid s ! y' ! x' = Obj f'" "f'' \<noteq> f'" "userPixels s f'' = Some ps'"
    for f' f'' ps' x' y'
    using con that unfolding consistent_def GRID_SIZE_def by blast
  have len: "y < length (grid s)" "x < length (grid s ! y)"
    using b wf_grid_length [OF wf] wf_grid_row [OF wf, of y] by simp_all
  have cell: "grid ?s1 ! y' ! x' = (if y' = y \<and> x' = x then Obj f else grid s ! y' ! x')" for y' x'
    using cell_update [OF len] by simp
  have unlisted: "(x, y) \<notin> set ps" if "userPixels s f' = Some ps" for f' ps
    using listed [OF that, of x y] falsy by auto
  have up_f: "userPixels ?s1 f = Some ((case userPixels s f of None \<Rightarrow> [] | Some ps \<Rightarrow> ps) @ [(x, y)])"
    by (simp add: appended_same)
  have up_other: "userPixels ?s1 f' = userPixels s f'" if "f' \<noteq> f" for f'
    using that by (simp add: appended_other)
  have part1: "x' < GRID_SIZE \<and> y' < GRID_SIZE \<and> grid ?s1 ! y' ! x' = Obj f'"
    if h: "userPixels ?s1 f' = Some ps" "(x', y') \<in> set ps" for f' ps x' y'
  proof (cases "(x', y') = (x, y)")
    case True
    have "f' = f"
    proof (rule ccontr)
      assume "f' \<noteq> f"
      then have "userPixels s f' = Some ps" using h(1) up_other by simp
      then show False using unlisted h(2) True by blast
    qed
    then show ?thesis using True b cell [of y x] by (simp add: GRID_SIZE_def)
  next
    case False
    have "\<exists>ps0. userPixels s f' = Some ps0 \<and> (x', y') \<in> set ps0"
    proof (cases "f' = f")
      case True
      then have "ps = (case userPixels s f of None \<Rightarrow> [] | Some ps \<Rightarrow> ps) @ [(x, y)]"
        using h(1) up_f by simp
      then show ?thesis using h(2) False True by (cases "userPixels s f") auto
    next
      case False
      then show ?thesis using h up_other by simp
    qed
    then obtain ps0 where "userPixels s f' = Some ps0" "(x', y') \<in> set ps0" by blast
    from listed [OF this] show ?thesis using False cell [of y' x'] by (auto simp: GRID_SIZE_def)
  qed
  have part2: "(\<exists>ps. userPixels ?s1 f' = Some ps \<and> count_list ps (x', y') = 1) \<and>
      (\<forall>f'' ps'. f'' \<noteq> f' \<and> userPixels ?s1 f'' = Some ps' \<longrightarrow> (x', y') \<notin> set ps')"
    if h: "x' < GRID_SIZE" "y' < GRID_SIZE" "grid ?s1 ! y' ! x' = Obj f'" for f' x' y'
  proof (cases "(x', y') = (x, y)")
    case True
    then have f': "f' = f" using h(3) cell [of y x] by simp
    have "count_list (case userPixels s f of None \<Rightarrow> [] | Some ps \<Rightarrow> ps) (x, y) = 0"
      using unlisted [of f] by (cases "userPixels s f") (simp_all add: count_list_0_iff)
    then have one: "\<exists>ps. userPixels ?s1 f' = Some ps \<and> count_list ps (x', y') = 1"
      using True f' up_f by simp
    have "(x', y') \<notin> set ps'" if "f'' \<noteq> f'" "userPixels ?s1 f'' = Some ps'" for f'' ps'
      using that f' up_other [of f''] unlisted [of f'' ps'] True by simp
    then show ?thesis using one by blast
  next
    case False
    then have old: "grid s ! y' ! x' = Obj f'" using h(3) cell [of y' x'] by auto
    have bb: "x' < 1000" "y' < 1000" using h by (simp_all add: GRID_SIZE_def)
    obtain ps where ps: "userPixels s f' = Some ps" "count_list ps (x', y') = 1"
      using once [OF bb old] by blast
    have one: "\<exists>ps. userPixels ?s1 f' = Some ps \<and> count_list ps (x', y') = 1"
    proof (cases "f' = f")
      case True
      then have "userPixels ?s1 f' = Some (ps @ [(x, y)])" using ps(1) up_f by simp
      moreover have "count_list (ps @ [(x, y)]) (x', y') = 1" using ps(2) False by auto
      ultimately show ?thesis by blast
    next
      case False
      then show ?thesis using ps up_other by simp
    qed
    have "(x', y') \<notin> set ps'" if t: "f'' \<noteq> f'" "userPixels ?s1 f'' = Some ps'" for f'' ps'
    proof (cases "f'' = f")
      case True
      then have eq: "ps' = (case userPixels s f of None \<Rightarrow> [] | Some ps \<Rightarrow> ps) @ [(x, y)]"
        using t(2) up_f by simp
      show ?thesis
      proof (cases "userPixels s f")
        case None
        then show ?thesis using eq False by auto
      next
        case (Some ps0)
        have "(x', y') \<notin> set ps0"
          using nowhere_else [OF bb old _ Some] t(1) True by simp
        then show ?thesis using eq Some False by auto
      qed
    next
      case False
      then have "userPixels s f'' = Some ps'" using t(2) up_other by simp
      from nowhere_else [OF bb old t(1) this] show ?thesis .
    qed
    then show ?thesis using one by blast
  qed
  show ?thesis unfolding consistent_def using part1 part2 by blast
qed

lemma claim_consistent:
  assumes "wf_grid (grid s)" "consistent s" "\<not> isl (fst (claim f s))"
  shows "consistent (snd (claim f s))"
  using claim_cases [OF assms(1), of f]
proof (elim disjE conjE exE)
  assume "claim f s = (Inr None, s)"
  then show ?thesis using assms(2) by simp
next
  fix x y :: nat
  assume b: "x < 1000" "y < 1000" and falsy: "\<not> truthy (grid s ! y ! x)"
    and c: "claim f s =
      (Inr (Some (x, y)),
       \<lparr>grid = (grid s)[y := (grid s ! y)[x := Obj f]],
        userPixels = appended (userPixels s) f (x, y)\<rparr>)"
  show ?thesis unfolding c using consistent_step [OF assms(1,2) b falsy, of f] by simp
next
  fix x y :: nat
  assume "claim f s = (Inl TypeError, s\<lparr>grid := (grid s)[y := (grid s ! y)[x := Obj f]]\<rparr>)"
  then show ?thesis using assms(3) by simp
qed

lemma claims_consistent:
  assumes "wf_grid (grid s)" "consistent s" "\<forall>r \<in> set (fst (claims fs s)). \<not> isl r"
  shows "consistent (snd (claims fs s))"
  using assms
proof (induction fs arbitrary: s)
  case Nil
  then show ?case by simp
next
  case (Cons f fs)
  have r: "\<not> isl (fst (claim f s))"
    and rs: "\<forall>r \<in> set (fst (claims fs (snd (claim f s)))). \<not> isl r"
    using Cons.prems(3) by (simp_all del: claims.simps add: claims_Cons)
  have "consistent (snd (claim f s))" using claim_consistent [OF Cons.prems(1,2) r] .
  from Cons.IH [OF claim_wf [OF Cons.prems(1)] this rs] show ?case
    by (simp del: claims.simps add: claims_Cons)
qed

text \<open>
  As long as no operation throws, the grid and \<open>userPixels\<close> agree after every sequence
  of claim operations from the initial state; this is so in particular when no id names
  an inherited property of a plain object.
\<close>

lemma index_matches_grid_unless_thrown:
  assumes "(\<forall>f \<in> set fs. \<not> inherited f) \<or> (\<forall>r \<in> set (fst (claims fs initial_state)). \<not> isl r)"
  shows "consistent (snd (claims fs initial_state))"
proof -
  have "\<forall>r \<in> set (fst (claims fs initial_state)). \<not> isl r"
    using assms claims_plain [OF initial_filled(2), of fs] by blast
  from claims_consistent [OF initial_filled(2) consistent_initial this] show ?thesis .
qed

text \<open>
  C3 on the code. The id is not checked, and an id that names an inherited property of
  a plain object, such as \<open>constructor\<close>, makes line 199 throw after line 187 has
  written the cell. On a fresh server the request with this id ends with a TypeError,
  the cell at \<open>(0, 0)\<close> holds the id and \<open>userPixels\<close> is still empty: a claimed cell that
  no list contains.
\<close>

theorem inherited_key_breaks_index:
  "fst (claim ''constructor'' initial_state) = Inl TypeError
   \<and> grid (snd (claim ''constructor'' initial_state)) ! 0 ! 0 = Obj ''constructor''
   \<and> userPixels (snd (claim ''constructor'' initial_state)) = Map.empty
   \<and> fst (frame_handler lib True ''constructor'' initial_state d) = Inl TypeError
   \<and> fst (snd (frame_handler lib True ''constructor'' initial_state d))
       = snd (claim ''constructor'' initial_state)"
proof -
  let ?s1 = "initial_state\<lparr>grid := (grid initial_state)[0 := (grid initial_state ! 0)[0 := Obj ''constructor'']]\<rparr>"
  have u: "userPixels initial_state ''constructor'' = None" by (simp add: initial_state_def)
  have c: "claim ''constructor'' initial_state = (Inl TypeError, ?s1)"
    using claim_next_state [OF initial_filled(1), of "''constructor''"] plain_ids u by simp
  have g: "grid ?s1 ! 0 ! 0 = Obj ''constructor''"
    by (simp add: initial_state_def initial_grid_def GRID_SIZE_def)
  have e: "userPixels ?s1 = Map.empty" by (simp add: initial_state_def)
  have h: "frame_handler lib True ''constructor'' initial_state d = (Inl TypeError, ?s1, d)"
    by (simp add: frame_handler_def claim_and_save_def c)
  show ?thesis unfolding c h using g e by simp
qed

section \<open>The full canvas\<close>

lemma filled_all_claimed:
  assumes "filled 10000 g"
  shows "wf_grid g"
    and "\<forall>x y. x < GRID_SIZE \<and> y < GRID_SIZE \<and> TOKEN_SIZE dvd x \<and> TOKEN_SIZE dvd y \<longrightarrow> truthy (g ! y ! x)"
proof -
  show "wf_grid g" using assms by (simp add: filled_def)
  have cells: "truthy (g ! (10 * i) ! (10 * j))" if "i < 100" "j < 100" for i j
  proof -
    have "100 * i + j < 10000" using that by simp
    then show ?thesis using assms that unfolding filled_def by blast
  qed
  show "\<forall>x y. x < GRID_SIZE \<and> y < GRID_SIZE \<and> TOKEN_SIZE dvd x \<and> TOKEN_SIZE dvd y \<longrightarrow> truthy (g ! y ! x)"
  proof (intro allI impI)
    fix x y :: nat
    assume h: "x < GRID_SIZE \<and> y < GRID_SIZE \<and> TOKEN_SIZE dvd x \<and> TOKEN_SIZE dvd y"
    then have "10 dvd x" "10 dvd y" by (simp_all add: TOKEN_SIZE_def)
    then obtain j i where xy: "x = 10 * j" "y = 10 * i" unfolding dvd_def by blast
    then have "i < 100" "j < 100" using h by (simp_all add: GRID_SIZE_def)
    then show "truthy (g ! y ! x)" using cells xy by simp
  qed
qed

text \<open>
  C4. When the grid has the shape of the initial one and every lattice cell (both
  coordinates below \<open>GRID_SIZE\<close> and multiples of \<open>TOKEN_SIZE\<close>) is claimed, the claim
  operation returns no position as a normal result, leaves the grid and \<open>userPixels\<close>
  as they were, and lines 181 to 201 of the handler do not call \<open>saveData\<close>: the files
  are as before.
\<close>

theorem canvas_full:
  assumes "wf_grid (grid s)"
    and "\<forall>x y. x < GRID_SIZE \<and> y < GRID_SIZE \<and> TOKEN_SIZE dvd x \<and> TOKEN_SIZE dvd y \<longrightarrow> truthy (grid s ! y ! x)"
  shows "claim f s = (Inr None, s) \<and> claim_and_save f s d = (Inr None, s, d)"
proof -
  have "truthy (grid s ! (10 * i) ! (10 * j))" if "i < 100" "j < 100" for i j
    using assms(2) that by (simp add: GRID_SIZE_def TOKEN_SIZE_def)
  then have "\<forall>i j. 0 \<le> i \<and> i < 100 \<and> j < 100 \<longrightarrow> truthy (grid s ! (10 * i) ! (10 * j))"
    by blast
  then have "claim_rows f (grid s) 0 = Inr (grid s, None)"
    using claim_rows_none [OF assms(1), of 0 f] by simp
  then have "claim f s = (Inr None, s)" by (simp add: claim_def)
  then show ?thesis by (simp add: claim_and_save_def)
qed

theorem canvas_full_witness:
  "\<exists>rs s. claims (replicate 10000 ''7'') initial_state = (rs, s)
     \<and> length (granted rs) = 10000
     \<and> claim ''8'' s = (Inr None, s)
     \<and> claim_and_save ''8'' s \<lparr>grid_json = Absent, user_pixels_json = Absent,
                            grid_json_writable = True, user_pixels_json_writable = True\<rparr>
       = (Inr None, s, \<lparr>grid_json = Absent, user_pixels_json = Absent,
                        grid_json_writable = True, user_pixels_json_writable = True\<rparr>)"
proof -
  let ?fs = "replicate 10000 ''7''"
  obtain rs s where r: "claims ?fs initial_state = (rs, s)" by (cases "claims ?fs initial_state")
  have plain: "\<forall>f \<in> set ?fs. \<not> inherited f" using plain_ids by simp
  have ok: "\<forall>r \<in> set (fst (claims ?fs initial_state)). \<not> isl r"
    using claims_plain [OF initial_filled(2) plain] .
  have "granted (fst (claims ?fs initial_state)) =
      map (\<lambda>k. (10 * (k mod 100), 10 * (k div 100))) [0 ..< min (0 + length ?fs) 10000]"
    using claims_granted [OF initial_filled(1) _ ok] by simp
  then have len: "length (granted rs) = 10000" using r by simp
  have "filled (min (0 + length ?fs) 10000) (grid (snd (claims ?fs initial_state)))"
    using claims_filled [OF initial_filled(1), of ?fs] by simp
  then have "filled 10000 (grid s)" using r by simp
  from canvas_full [OF filled_all_claimed [OF this]] show ?thesis using r len by blast
qed

section \<open>A failing save\<close>

text \<open>
  C5, as the code has it. When the claim has changed the grid and \<open>userPixels\<close> and
  \<open>saveData\<close> then fails, lines 181 to 201 end with the error of the write and the handler
  with them, so that no response reports success; the grid and \<open>userPixels\<close> stay as the
  claim left them, with the cell claimed and listed: nothing is rolled back and the write
  is not tried again.
\<close>

theorem save_failure_keeps_claim:
  assumes "wf_grid (grid s)" "claim f s = (Inr (Some (x, y)), s')" "fst (saveData s' d) = Inl e"
  shows "claim_and_save f s d = (Inl e, s', snd (saveData s' d))
       \<and> frame_handler lib True f s d = (Inl e, s', snd (saveData s' d))
       \<and> \<not> truthy (grid s ! y ! x) \<and> grid s' ! y ! x = Obj f \<and> s' \<noteq> s
       \<and> userPixels s' f = Some ((case userPixels s f of None \<Rightarrow> [] | Some ps \<Rightarrow> ps) @ [(x, y)])"
proof -
  have cs: "claim_and_save f s d = (Inl e, s', snd (saveData s' d))"
    using assms(2,3) by (cases "saveData s' d") (simp add: claim_and_save_def)
  then have fh: "frame_handler lib True f s d = (Inl e, s', snd (saveData s' d))"
    by (simp add: frame_handler_def)
  have c: "\<not> truthy (grid s ! y ! x)" "grid s' ! y ! x = Obj f"
    using claim_writes_cell [OF assms(1,2)] by simp_all
  then have ne: "s' \<noteq> s" by auto
  have "userPixels s' f = Some ((case userPixels s f of None \<Rightarrow> [] | Some ps \<Rightarrow> ps) @ [(x, y)])"
    unfolding claim_success(4) [OF assms(1,2)] by (simp add: appended_same)
  then show ?thesis using cs fh c ne by simp
qed

theorem save_failure_keeps_claim_witness:
  "\<exists>s'. claim ''42'' initial_state = (Inr (Some (0, 0)), s')
     \<and> claim_and_save ''42'' initial_state
          \<lparr>grid_json = Absent, user_pixels_json = Absent,
           grid_json_writable = False, user_pixels_json_writable = False\<rparr>
        = (Inl EACCES, s',
           \<lparr>grid_json = Absent, user_pixels_json = Absent,
            grid_json_writable = False, user_pixels_json_writable = False\<rparr>)
     \<and> grid s' ! 0 ! 0 = Obj ''42'' \<and> s' \<noteq> initial_state"
proof -
  let ?d = "\<lparr>grid_json = Absent, user_pixels_json = Absent,
             grid_json_writable = False, user_pixels_json_writable = False\<rparr>"
  obtain s' where c: "claim ''42'' initial_state = (Inr (Some (0, 0)), s')"
    using claim_next_state [OF initial_filled(1), of "''42''"] plain_ids by simp
  have sv: "saveData s' ?d = (Inl EACCES, ?d)" by (simp add: saveData_def)
  then have "fst (saveData s' ?d) = Inl EACCES" by simp
  from save_failure_keeps_claim [OF initial_filled(2) c this] show ?thesis using c sv by auto
qed

theorem save_failure_counterexample:
  "(case claim_and_save ''42'' initial_state
           \<lparr>grid_json = Absent, user_pixels_json = Absent,
            grid_json_writable = False, user_pixels_json_writable = False\<rparr> of
      (r, s', d') \<Rightarrow>
        r = Inl EACCES
        \<and> grid initial_state ! 0 ! 0 = Null \<and> userPixels initial_state ''42'' = None
        \<and> grid s' ! 0 ! 0 = Obj ''42'' \<and> userPixels s' ''42'' = Some [(0, 0)]
        \<and> d' = \<lparr>grid_json = Absent, user_pixels_json = Absent,
                  grid_json_writable = False, user_pixels_json_writable = False\<rparr>)"
proof -
  let ?d = "\<lparr>grid_json = Absent, user_pixels_json = Absent,
             grid_json_writable = False, user_pixels_json_writable = False\<rparr>"
  let ?s1 = "\<lparr>grid = (grid initial_state)[0 := (grid initial_state ! 0)[0 := Obj ''42'']],
              userPixels = appended (userPixels initial_state) ''42'' (0, 0)\<rparr>"
  have c: "claim ''42'' initial_state = (Inr (Some (0, 0)), ?s1)"
    using claim_next_state [OF initial_filled(1), of "''42''"] plain_ids by simp
  have sv: "saveData ?s1 ?d = (Inl EACCES, ?d)" by (simp add: saveData_def)
  have cs: "claim_and_save ''42'' initial_state ?d = (Inl EACCES, ?s1, ?d)"
    using c sv by (simp add: claim_and_save_def)
  have "grid initial_state ! 0 ! 0 = Null" "userPixels initial_state ''42'' = None"
    "grid ?s1 ! 0 ! 0 = Obj ''42''" "userPixels ?s1 ''42'' = Some [(0, 0)]"
    by (simp_all add: initial_state_def initial_grid_def GRID_SIZE_def appended_def)
  then show ?thesis unfolding cs by simp
qed

section \<open>Loading and the round trip through the files\<close>

lemma loadData_resolves: "\<exists>s' es. loadData s d = Inr (s', es)"
  by (simp add: loadData_def split: sum.splits)

text \<open>
  C6, as the code has it. When \<open>grid.json\<close> is missing, \<open>loadData\<close> leaves the initial
  state, whose grid is \<open>null\<close> in every cell and whose \<open>userPixels\<close> is empty, and logs
  nothing. No read failure is fatal: \<open>loadData\<close> resolves on every state of the files
  and the server listens. When \<open>grid.json\<close> cannot be read or is no JSON, the error is
  logged and the server listens with the initial state; when the same happens to
  \<open>user_pixels.json\<close> after the grid was read, the error is logged and the server
  listens with the grid read from the file and the empty \<open>userPixels\<close>.
\<close>

theorem load_never_fatal:
  "(grid_json d = Absent \<longrightarrow> loadData initial_state d = Inr (initial_state, []))
   \<and> (\<forall>x y. x < GRID_SIZE \<and> y < GRID_SIZE \<longrightarrow> grid initial_state ! y ! x = Null)
   \<and> userPixels initial_state = Map.empty
   \<and> (\<exists>s es. loadData initial_state d = Inr (s, es) \<and> startup d = Listening s es)
   \<and> (grid_json d = Unreadable \<or> grid_json d = Contents Garbage \<longrightarrow>
        (\<exists>e. e \<noteq> ENOENT \<and> startup d = Listening initial_state [e]))
   \<and> (\<forall>g. grid_json d = Contents (Json g)
          \<and> (user_pixels_json d = Unreadable \<or> user_pixels_json d = Contents Garbage) \<longrightarrow>
        (\<exists>e. e \<noteq> ENOENT \<and> startup d = Listening (initial_state\<lparr>grid := g\<rparr>) [e]))"
proof (intro conjI)
  show "grid_json d = Absent \<longrightarrow> loadData initial_state d = Inr (initial_state, [])"
    by (simp add: loadData_def fs_readFile_def logged_def)
  show "\<forall>x y. x < GRID_SIZE \<and> y < GRID_SIZE \<longrightarrow> grid initial_state ! y ! x = Null"
    by (simp add: initial_state_def initial_grid_def)
  show "userPixels initial_state = Map.empty"
    by (simp add: initial_state_def)
  show "\<exists>s es. loadData initial_state d = Inr (s, es) \<and> startup d = Listening s es"
    using loadData_resolves [of initial_state d] by (auto simp: startup_def)
  show "grid_json d = Unreadable \<or> grid_json d = Contents Garbage \<longrightarrow>
        (\<exists>e. e \<noteq> ENOENT \<and> startup d = Listening initial_state [e])"
    by (auto simp: startup_def loadData_def fs_readFile_def JSON_parse_def logged_def)
  show "\<forall>g. grid_json d = Contents (Json g)
          \<and> (user_pixels_json d = Unreadable \<or> user_pixels_json d = Contents Garbage) \<longrightarrow>
        (\<exists>e. e \<noteq> ENOENT \<and> startup d = Listening (initial_state\<lparr>grid := g\<rparr>) [e])"
    by (auto simp: startup_def loadData_def fs_readFile_def JSON_parse_def logged_def)
qed

theorem load_never_fatal_witness:
  "loadData initial_state \<lparr>grid_json = Absent, user_pixels_json = Absent,
       grid_json_writable = True, user_pixels_json_writable = True\<rparr> = Inr (initial_state, [])
   \<and> grid initial_state ! 990 ! 990 = Null
   \<and> startup \<lparr>grid_json = Contents Garbage, user_pixels_json = Absent,
       grid_json_writable = True, user_pixels_json_writable = True\<rparr>
     = Listening initial_state [SyntaxError]
   \<and> startup \<lparr>grid_json = Contents (Json [[Obj ''42'']]), user_pixels_json = Unreadable,
       grid_json_writable = True, user_pixels_json_writable = True\<rparr>
     = Listening (initial_state\<lparr>grid := [[Obj ''42'']]\<rparr>) [EACCES]"
proof -
  let ?d1 = "\<lparr>grid_json = Absent, user_pixels_json = Absent,
       grid_json_writable = True, user_pixels_json_writable = True\<rparr>"
  let ?d2 = "\<lparr>grid_json = Contents Garbage, user_pixels_json = Absent,
       grid_json_writable = True, user_pixels_json_writable = True\<rparr>"
  let ?d3 = "\<lparr>grid_json = Contents (Json [[Obj ''42'']]), user_pixels_json = Unreadable,
       grid_json_writable = True, user_pixels_json_writable = True\<rparr>"
  have a: "loadData initial_state ?d1 = Inr (initial_state, [])"
    and b: "grid initial_state ! 990 ! 990 = Null"
    using load_never_fatal [of ?d1] by (simp_all add: GRID_SIZE_def)
  obtain e2 where e2: "startup ?d2 = Listening initial_state [e2]"
    using load_never_fatal [of ?d2] by auto
  have "startup ?d2 = Listening initial_state [SyntaxError]"
    by (simp add: startup_def loadData_def fs_readFile_def JSON_parse_def logged_def)
  moreover
  obtain e3 where e3: "startup ?d3 = Listening (initial_state\<lparr>grid := [[Obj ''42'']]\<rparr>) [e3]"
    using load_never_fatal [of ?d3] by auto
  have "startup ?d3 = Listening (initial_state\<lparr>grid := [[Obj ''42'']]\<rparr>) [EACCES]"
    by (simp add: startup_def loadData_def fs_readFile_def JSON_parse_def logged_def)
  ultimately show ?thesis using a b by simp
qed

theorem load_fatal_counterexample:
  "startup \<lparr>grid_json = Unreadable, user_pixels_json = Absent,
            grid_json_writable = True, user_pixels_json_writable = True\<rparr>
   = Listening initial_state [EACCES]"
  by (simp add: startup_def loadData_def fs_readFile_def logged_def)

lemma no_undefined_map:
  assumes "\<forall>row \<in> set g. Undefined \<notin> set row"
  shows "map (map undefined_to_null) g = g"
proof -
  have "undefined_to_null c = c" if "c \<noteq> Undefined" for c
    using that by (cases c) simp_all
  moreover have "c \<noteq> Undefined" if "row \<in> set g" "c \<in> set row" for row c
    using assms that by blast
  ultimately have "map undefined_to_null row = row" if "row \<in> set g" for row
    using that by (intro map_idI) blast
  then show ?thesis by (rule map_idI)
qed

lemma save_then_load:
  assumes "\<forall>row \<in> set (grid s). Undefined \<notin> set row" "saveData s d = (Inr (), d')"
  shows "loadData s0 d' = Inr (s, [])"
proof -
  have d': "d' = d\<lparr>grid_json := Contents (Json (grid s)), user_pixels_json := Contents (Json (userPixels s))\<rparr>"
    using assms(2) no_undefined_map [OF assms(1)]
    by (auto simp: saveData_def Let_def JSON_stringify_grid_def JSON_stringify_userPixels_def split: if_splits)
  show ?thesis unfolding d'
    by (simp add: loadData_def fs_readFile_def JSON_parse_def)
qed

lemma initial_no_undefined: "\<forall>row \<in> set (grid initial_state). Undefined \<notin> set row"
  by (auto simp: initial_state_def initial_grid_def)

lemma update_no_undefined:
  assumes "\<forall>row \<in> set g. Undefined \<notin> set row" "v \<noteq> Undefined"
  shows "\<forall>row \<in> set (g[y := (g ! y)[x := v]]). Undefined \<notin> set row"
proof (cases "y < length g")
  case False
  then have "g[y := (g ! y)[x := v]] = g" by (simp add: list_update_beyond)
  then show ?thesis using assms(1) by simp
next
  case True
  then have "Undefined \<notin> set (g ! y)" using assms(1) by simp
  then have "Undefined \<notin> insert v (set (g ! y))" using assms(2) by auto
  then have new: "Undefined \<notin> set ((g ! y)[x := v])"
    using set_update_subset_insert [of "g ! y" x v] by blast
  show ?thesis
  proof
    fix row assume "row \<in> set (g[y := (g ! y)[x := v]])"
    then have "row \<in> insert ((g ! y)[x := v]) (set g)"
      using set_update_subset_insert [of g y "(g ! y)[x := v]"] by blast
    then show "Undefined \<notin> set row" using new assms(1) by blast
  qed
qed

lemma claim_no_undefined:
  assumes "wf_grid (grid s)" "\<forall>row \<in> set (grid s). Undefined \<notin> set row"
  shows "\<forall>row \<in> set (grid (snd (claim f s))). Undefined \<notin> set row"
  using claim_grid [OF assms(1), of f]
proof (elim disjE exE conjE)
  assume "grid (snd (claim f s)) = grid s"
  then show ?thesis using assms(2) by simp
next
  fix x y :: nat
  assume g: "grid (snd (claim f s)) = (grid s)[y := (grid s ! y)[x := Obj f]]"
  show ?thesis unfolding g using update_no_undefined [OF assms(2), of "Obj f" y x] by simp
qed

lemma claims_no_undefined:
  assumes "wf_grid (grid s)" "\<forall>row \<in> set (grid s). Undefined \<notin> set row"
  shows "\<forall>row \<in> set (grid (snd (claims fs s))). Undefined \<notin> set row"
  using assms
proof (induction fs arbitrary: s)
  case Nil
  then show ?case by simp
next
  case (Cons f fs)
  from Cons.IH [OF claim_wf [OF Cons.prems(1)] claim_no_undefined [OF Cons.prems]]
  show ?case by (simp del: claims.simps add: claims_Cons)
qed

text \<open>
  C9. For every state reached from the initial state by claim operations (also by a
  sequence in which an append throws): when \<open>saveData\<close> succeeds, \<open>loadData\<close> on the
  files it wrote restores this very state and logs nothing, whatever was in the two
  variables before, so that a server started on these files listens with it; every
  claim operation and every sequence of claim operations then gives the same results
  and states as on the state that was saved.
\<close>

theorem snapshot_round_trip:
  assumes "claims fs0 initial_state = (rs0, s)" "saveData s d = (Inr (), d')"
  shows "loadData s0 d' = Inr (s, [])
       \<and> startup d' = Listening s []
       \<and> (case loadData s0 d' of
            Inl e \<Rightarrow> False
          | Inr (t, es) \<Rightarrow> (\<forall>f. claim f t = claim f s) \<and> (\<forall>fs. claims fs t = claims fs s))"
proof -
  have "\<forall>row \<in> set (grid (snd (claims fs0 initial_state))). Undefined \<notin> set row"
    using claims_no_undefined [OF initial_filled(2) initial_no_undefined] .
  then have clean: "\<forall>row \<in> set (grid s). Undefined \<notin> set row" using assms(1) by simp
  have l: "loadData t d' = Inr (s, [])" for t
    using save_then_load [OF clean assms(2)] .
  then show ?thesis by (simp add: startup_def)
qed

theorem snapshot_round_trip_witness:
  "\<exists>rs s d' s2. claims [''42'', ''7''] initial_state = (rs, s)
     \<and> saveData s \<lparr>grid_json = Absent, user_pixels_json = Contents Garbage,
                    grid_json_writable = True, user_pixels_json_writable = True\<rparr> = (Inr (), d')
     \<and> startup d' = Listening s []
     \<and> claim ''42'' s = (Inr (Some (20, 0)), s2)"
proof -
  let ?d = "\<lparr>grid_json = Absent, user_pixels_json = Contents Garbage,
             grid_json_writable = True, user_pixels_json_writable = True\<rparr>"
  let ?fs = "[''42'', ''7'']"
  obtain rs s where r: "claims ?fs initial_state = (rs, s)" by (cases "claims ?fs initial_state")
  have "filled (min (0 + length ?fs) 10000) (grid (snd (claims ?fs initial_state)))"
    using claims_filled [OF initial_filled(1), of ?fs] by simp
  then have f2: "filled 2 (grid s)" using r by (simp add: numeral_2_eq_2)
  obtain s2 where c: "claim ''42'' s = (Inr (Some (20, 0)), s2)"
    using claim_next_state [OF f2, of "''42''"] plain_ids by simp
  have sv: "saveData s ?d = (Inr (), snd (saveData s ?d))"
    by (simp add: saveData_def Let_def)
  from snapshot_round_trip [OF r sv] have "startup (snd (saveData s ?d)) = Listening s []"
    by simp
  then show ?thesis using r sv c by blast
qed

section \<open>Tile colours\<close>

lemma digit_div:
  fixes h l m :: int
  assumes "0 \<le> l" "l < m"
  shows "(h * m + l) div m = h" "(h * m + l) mod m = l"
proof -
  have m: "m \<noteq> 0" using assms by auto
  have "(h * m + l) div m = h + l div m" using m by simp
  then show "(h * m + l) div m = h" using assms by simp
  have "(h * m + l) mod m = l mod m" by simp
  then show "(h * m + l) mod m = l" using assms by simp
qed

lemma four_digits:
  fixes r g b a :: int
  assumes "0 \<le> r" "r \<le> 255" "0 \<le> g" "g \<le> 255" "0 \<le> b" "b \<le> 255" "0 \<le> a" "a \<le> 255"
  defines "k \<equiv> r * 16777216 + g * 65536 + b * 256 + a"
  shows "k div 16777216 mod 256 = r" "k div 65536 mod 256 = g" "k div 256 mod 256 = b" "k mod 256 = a"
    "0 \<le> k" "k < 4294967296"
proof -
  have a: "0 \<le> a" "a < 256" using assms by simp_all
  have ba: "0 \<le> b * 256 + a" "b * 256 + a < 65536" using assms by linarith+
  have gba: "0 \<le> g * 65536 + (b * 256 + a)" "g * 65536 + (b * 256 + a) < 16777216" using assms by linarith+
  have k1: "k = r * 16777216 + (g * 65536 + (b * 256 + a))" by (simp add: k_def)
  have k2: "k = (r * 256 + g) * 65536 + (b * 256 + a)" by (simp add: k_def algebra_simps)
  have k3: "k = ((r * 256 + g) * 256 + b) * 256 + a" by (simp add: k_def algebra_simps)
  have "k div 16777216 = r" unfolding k1 using gba by (rule digit_div)
  then show "k div 16777216 mod 256 = r" using assms by simp
  have "k div 65536 = r * 256 + g" unfolding k2 using ba by (rule digit_div)
  moreover have "(r * 256 + g) mod 256 = g" using assms by (intro digit_div) simp_all
  ultimately show "k div 65536 mod 256 = g" by simp
  have "k div 256 = (r * 256 + g) * 256 + b" unfolding k3 using a by (rule digit_div)
  moreover have "((r * 256 + g) * 256 + b) mod 256 = b" using assms by (intro digit_div) simp_all
  ultimately show "k div 256 mod 256 = b" by simp
  show "k mod 256 = a" unfolding k3 using a by (rule digit_div)
  show "0 \<le> k" unfolding k1 using assms gba by simp
  show "k < 4294967296" unfolding k1 using assms gba by linarith
qed

lemma unpack_pack:
  fixes r g b a :: int
  assumes "0 \<le> r" "r \<le> 255" "0 \<le> g" "g \<le> 255" "0 \<le> b" "b \<le> 255" "0 \<le> a" "a \<le> 255"
  shows "intToRGBA (word_of_int (r * 2 ^ 24 + g * 2 ^ 16 + b * 2 ^ 8 + a)) = (r, g, b, a)"
proof -
  let ?k = "r * 16777216 + g * 65536 + b * 256 + a"
  note d = four_digits [OF assms]
  have "uint (word_of_int ?k :: 32 word) = ?k mod 4294967296"
    by (subst uint_word_of_int) simp
  also have "\<dots> = ?k" using d(5,6) by (rule mod_pos_pos_trivial)
  finally have u: "uint (word_of_int ?k :: 32 word) = ?k" .
  have pw: "(2::int) ^ 24 = 16777216" "(2::int) ^ 16 = 65536" "(2::int) ^ 8 = 256" by simp_all
  show ?thesis unfolding intToRGBA_def pw u d(1-4) by (rule refl)
qed

lemma sin_3_bounds: "141 / 1000 < sin (3::real)" "sin (3::real) < 1412 / 10000"
proof -
  define S :: real where "S = (\<Sum>m<14. sin_coeff m * 3 ^ m)"
  define E :: real where "E = inverse (fact 14) * \<bar>3\<bar> ^ 14"
  have "\<bar>sin (3::real) - S\<bar> \<le> E"
    unfolding S_def E_def by (rule Maclaurin_sin_bound)
  then have b: "sin 3 - S \<le> E" "S - sin 3 \<le> E" by (simp_all add: abs_le_iff)
  have r: "E < 6 / 100000" unfolding E_def by (simp add: fact_numeral)
  have s: "S = 3 - 27/6 + 243/120 - 2187/5040 + 19683/362880 - 177147/39916800 + 1594323/6227020800"
    unfolding S_def by (simp add: sin_coeff_def lessThan_nat_numeral lessThan_Suc fact_numeral)
  have lo: "14106 / 100000 < S" unfolding s by simp
  have hi: "S < 14114 / 100000" unfolding s by simp
  show "141 / 1000 < sin (3::real)" using b r lo by linarith
  show "sin (3::real) < 1412 / 10000" using b r hi by linarith
qed

lemma channel_range:
  fixes t amp mid :: real
  assumes "0 \<le> amp"
  shows "mid - amp \<le> sin t * amp + mid" "sin t * amp + mid \<le> mid + amp"
proof -
  have "- amp \<le> sin t * amp"
    using assms sin_ge_minus_one [of t] mult_right_mono [of "-1" "sin t" amp] by simp
  then show "mid - amp \<le> sin t * amp + mid" by simp
  have "sin t * amp \<le> amp"
    using assms sin_le_one [of t] mult_right_mono [of "sin t" 1 amp] by simp
  then show "sin t * amp + mid \<le> mid + amp" by simp
qed

lemma claimed_channel: "0 \<le> sin t * 127 + 128" "sin t * 127 + 128 \<le> 255"
  for t :: real
  using channel_range [where amp = 127 and mid = 128 and t = t] by simp_all

lemma unclaimed_channel: "0 \<le> sin t * 30 + 225" "sin t * 30 + 225 \<le> 255"
  for t :: real
  using channel_range [where amp = 30 and mid = 225 and t = t] by simp_all

lemma floor_channel:
  fixes r :: real
  assumes "0 \<le> r" "r \<le> 255"
  shows "0 \<le> \<lfloor>r\<rfloor>" "\<lfloor>r\<rfloor> \<le> 255" "and_0xff r = \<lfloor>r\<rfloor>"
proof -
  show lo: "0 \<le> \<lfloor>r\<rfloor>" using assms(1) by simp
  have "\<lfloor>r\<rfloor> \<le> \<lfloor>255::real\<rfloor>" using assms(2) by (rule floor_mono)
  then show hi: "\<lfloor>r\<rfloor> \<le> 255" by simp
  have "\<lfloor>r\<rfloor> mod 256 = \<lfloor>r\<rfloor>" using lo hi by simp
  then show "and_0xff r = \<lfloor>r\<rfloor>" using assms(1) by (simp add: and_0xff_def)
qed

lemma rgbaToInt_channels:
  assumes "0 \<le> r" "r \<le> 255" "0 \<le> g" "g \<le> 255" "0 \<le> b" "b \<le> 255" "0 \<le> a" "a \<le> 255"
  shows "\<exists>c. rgbaToInt r g b a = Inr c \<and> intToRGBA c = (\<lfloor>r\<rfloor>, \<lfloor>g\<rfloor>, \<lfloor>b\<rfloor>, \<lfloor>a\<rfloor>)"
proof -
  note fr = floor_channel [OF assms(1,2)] and fg = floor_channel [OF assms(3,4)]
    and fb = floor_channel [OF assms(5,6)] and fa = floor_channel [OF assms(7,8)]
  have "rgbaToInt r g b a =
      Inr (word_of_int (\<lfloor>r\<rfloor> * 2 ^ 24 + \<lfloor>g\<rfloor> * 2 ^ 16 + \<lfloor>b\<rfloor> * 2 ^ 8 + \<lfloor>a\<rfloor>))"
    unfolding rgbaToInt_def fr(3) fg(3) fb(3) fa(3) using assms by simp
  moreover have "intToRGBA (word_of_int (\<lfloor>r\<rfloor> * 2 ^ 24 + \<lfloor>g\<rfloor> * 2 ^ 16 + \<lfloor>b\<rfloor> * 2 ^ 8 + \<lfloor>a\<rfloor>))
      = (\<lfloor>r\<rfloor>, \<lfloor>g\<rfloor>, \<lfloor>b\<rfloor>, \<lfloor>a\<rfloor>)"
    by (rule unpack_pack [OF fr(1,2) fg(1,2) fb(1,2) fa(1,2)])
  ultimately show ?thesis by simp
qed

lemma generatePixelColor_channels:
  "\<exists>c. generatePixelColor x y True = Inr c \<and> intToRGBA c =
       (\<lfloor>sin (0.3 * real x) * 127 + 128\<rfloor>, \<lfloor>sin (0.3 * real y) * 127 + 128\<rfloor>,
        \<lfloor>sin (0.3 * real (x + y)) * 127 + 128\<rfloor>, 255)"
  "\<exists>c. generatePixelColor x y False = Inr c \<and> intToRGBA c =
       (\<lfloor>sin (0.1 * real (x + y)) * 30 + 225\<rfloor>, \<lfloor>sin (0.1 * real (x + y)) * 30 + 225\<rfloor>,
        \<lfloor>sin (0.1 * real (x + y)) * 30 + 225\<rfloor>, 255)"
proof -
  have a: "(0::real) \<le> 255" "(255::real) \<le> 255" by simp_all
  show "\<exists>c. generatePixelColor x y True = Inr c \<and> intToRGBA c =
       (\<lfloor>sin (0.3 * real x) * 127 + 128\<rfloor>, \<lfloor>sin (0.3 * real y) * 127 + 128\<rfloor>,
        \<lfloor>sin (0.3 * real (x + y)) * 127 + 128\<rfloor>, 255)"
    unfolding generatePixelColor_def Let_def
    using rgbaToInt_channels [OF claimed_channel claimed_channel claimed_channel a,
        of "0.3 * real x" "0.3 * real y" "0.3 * real (x + y)"] by simp
  show "\<exists>c. generatePixelColor x y False = Inr c \<and> intToRGBA c =
       (\<lfloor>sin (0.1 * real (x + y)) * 30 + 225\<rfloor>, \<lfloor>sin (0.1 * real (x + y)) * 30 + 225\<rfloor>,
        \<lfloor>sin (0.1 * real (x + y)) * 30 + 225\<rfloor>, 255)"
    unfolding generatePixelColor_def Let_def
    using rgbaToInt_channels [OF unclaimed_channel unclaimed_channel unclaimed_channel a,
        of "0.1 * real (x + y)" "0.1 * real (x + y)" "0.1 * real (x + y)"] by simp
qed

lemma generatePixelColor_ok: "\<exists>c. generatePixelColor x y claimed = Inr c"
  using generatePixelColor_channels [of x y] by (cases claimed) auto

text \<open>
  C8, as the code has it. The colour of a tile is a function of \<open>(x, y, claimed)\<close>
  alone and is always produced. Read as red, green, blue and alpha, the colour of the
  claimed tile at \<open>(0, 0)\<close> is \<open>(128, 128, 128, 255)\<close> and that of the unclaimed tile at
  \<open>(0, 0)\<close> is \<open>(225, 225, 225, 255)\<close>. The code does not round: it hands
  \<open>sin (0.3 x) 127 + 128\<close>, \<open>sin (0.3 y) 127 + 128\<close> and \<open>sin (0.3 (x + y)) 127 + 128\<close>
  to \<open>Jimp.rgbaToInt\<close> as they are, and each channel of a claimed tile is the integer
  part of its value; an unclaimed tile has three times the integer part of
  \<open>sin (0.1 (x + y)) 30 + 225\<close>; the alpha is 255 in both.
\<close>

theorem tile_color:
  "(\<exists>c. generatePixelColor 0 0 True = Inr c \<and> intToRGBA c = (128, 128, 128, 255))
   \<and> (\<exists>c. generatePixelColor 0 0 False = Inr c \<and> intToRGBA c = (225, 225, 225, 255))
   \<and> (\<exists>c. generatePixelColor x y True = Inr c \<and> intToRGBA c =
         (\<lfloor>sin (0.3 * real x) * 127 + 128\<rfloor>, \<lfloor>sin (0.3 * real y) * 127 + 128\<rfloor>,
          \<lfloor>sin (0.3 * real (x + y)) * 127 + 128\<rfloor>, 255))
   \<and> (\<exists>c. generatePixelColor x y False = Inr c \<and> intToRGBA c =
         (\<lfloor>sin (0.1 * real (x + y)) * 30 + 225\<rfloor>, \<lfloor>sin (0.1 * real (x + y)) * 30 + 225\<rfloor>,
          \<lfloor>sin (0.1 * real (x + y)) * 30 + 225\<rfloor>, 255))"
proof -
  have "\<exists>c. generatePixelColor 0 0 True = Inr c \<and> intToRGBA c = (128, 128, 128, 255)"
    using generatePixelColor_channels(1) [of 0 0] by simp
  moreover have "\<exists>c. generatePixelColor 0 0 False = Inr c \<and> intToRGBA c = (225, 225, 225, 255)"
    using generatePixelColor_channels(2) [of 0 0] by simp
  ultimately show ?thesis using generatePixelColor_channels [of x y] by blast
qed

theorem tile_color_counterexample:
  "generatePixelColor 10 0 True = Inr 0x918091FF
   \<and> intToRGBA 0x918091FF = (145, 128, 145, 255)
   \<and> round (sin (0.3 * real 10) * 127 + 128) = 146"
proof -
  have arg: "0.3 * real 10 = 3" "0.3 * real 0 = 0" "0.3 * real (10 + 0) = 3" by simp_all
  have lo: "(145::real) \<le> sin 3 * 127 + 128" "(146::real) \<le> sin 3 * 127 + 128 + 1 / 2"
    using sin_3_bounds(1) by simp_all
  have hi: "sin 3 * 127 + 128 < (146::real)" "sin 3 * 127 + 128 + 1 / 2 < (147::real)"
    using sin_3_bounds(2) by simp_all
  have fl: "\<lfloor>sin 3 * 127 + 128 :: real\<rfloor> = 145"
    using lo(1) hi(1) by (intro floor_unique) simp_all
  have rd: "round (sin 3 * 127 + 128 :: real) = 146"
    unfolding round_def using lo(2) hi(2) by (intro floor_unique) simp_all
  obtain c where c: "generatePixelColor 10 0 True = Inr c"
    and ch: "intToRGBA c = (145, 128, 145, 255)"
    using generatePixelColor_channels(1) [of 10 0] unfolding arg by (auto simp: fl)
  have r: "0 \<le> sin (3::real) * 127 + 128" "sin (3::real) * 127 + 128 \<le> 255"
    using claimed_channel [of 3] by simp_all
  have "generatePixelColor 10 0 True =
      Inr (word_of_int (145 * 2 ^ 24 + 128 * 2 ^ 16 + 145 * 2 ^ 8 + 255))"
    unfolding generatePixelColor_def Let_def arg rgbaToInt_def
    using r floor_channel(3) [OF r] fl by (simp add: and_0xff_def)
  then have v: "generatePixelColor 10 0 True = Inr 0x918091FF" by simp
  then have "c = 0x918091FF" using c by simp
  then show ?thesis using v ch rd unfolding arg by simp
qed

section \<open>The image buffer\<close>

lemma scaled_values: "scaledTokenSize = 12" "scaled 0 = 0" "scaled 520 = 624"
  by (simp_all add: scaledTokenSize_def scaled_def scaleFactor_def width_def GRID_SIZE_def TOKEN_SIZE_def)

lemma length_new_image: "length new_image = 3024000"
  by (simp add: new_image_def width_def height_def)

lemma pixel_idx_below_image: "pixel_idx 0 630 = 3024000"
  by (simp add: pixel_idx_def width_def)

lemma writeUInt32BE_result:
  "case writeUInt32BE buf v idx of Inl e \<Rightarrow> e = RangeError | Inr buf' \<Rightarrow> length buf' = length buf"
  by (simp add: writeUInt32BE_def)

lemma fill_pixel_result:
  "case fill_pixel c x y idx buf of Inl e \<Rightarrow> e = RangeError | Inr buf' \<Rightarrow> length buf' = length buf"
  using writeUInt32BE_result [where buf = buf and v = c and idx = idx] by (simp add: fill_pixel_def)

lemma scan_cols_fill:
  "case scan_cols (fill_pixel c) y x xe buf of
     Inl e \<Rightarrow> e = RangeError | Inr buf' \<Rightarrow> length buf' = length buf"
proof (induction "xe - x" arbitrary: x buf)
  case 0
  then show ?case by (subst scan_cols.simps) simp
next
  case (Suc n)
  then have lt: "x < xe" by simp
  show ?case
  proof (cases "fill_pixel c x y (pixel_idx x y) buf")
    case (Inl e)
    then have "e = RangeError" using fill_pixel_result [where c = c and x = x and y = y and idx = "pixel_idx x y" and buf = buf] by simp
    then show ?thesis using lt Inl by (subst scan_cols.simps) simp
  next
    case (Inr buf1)
    then have len: "length buf1 = length buf"
      using fill_pixel_result [where c = c and x = x and y = y and idx = "pixel_idx x y" and buf = buf] by simp
    have "n = xe - (x + 1)" using Suc.hyps(2) by simp
    from Suc.hyps(1) [OF this, where buf = buf1] show ?thesis
      using lt Inr len by (subst scan_cols.simps) (simp split: sum.splits)
  qed
qed

lemma scan_cols_below_image:
  assumes "length buf = 3024000" "0 < xe"
  shows "scan_cols (fill_pixel c) 630 0 xe buf = Inl RangeError"
  using assms
  by (subst scan_cols.simps) (simp add: fill_pixel_def writeUInt32BE_def pixel_idx_below_image)

lemma scan_rows_below_image:
  assumes "length buf = 3024000" "0 < xe" "y \<le> 630" "630 < ye"
  shows "scan_rows (fill_pixel c) y ye 0 xe buf = Inl RangeError"
  using assms(1,3)
proof (induction "630 - y" arbitrary: y buf)
  case 0
  then have "y = 630" by simp
  then show ?case
    using assms(4) scan_cols_below_image [OF "0.prems"(1) assms(2), where c = c]
    by (subst scan_rows.simps) simp
next
  case (Suc n)
  then have lt: "y < ye" using assms(4) by simp
  show ?case
  proof (cases "scan_cols (fill_pixel c) y 0 xe buf")
    case (Inl e)
    then have "e = RangeError" using scan_cols_fill [where c = c and y = y and x = 0 and xe = xe and buf = buf] by simp
    then show ?thesis using lt Inl by (subst scan_rows.simps) simp
  next
    case (Inr buf1)
    then have "length buf1 = length buf" using scan_cols_fill [where c = c and y = y and x = 0 and xe = xe and buf = buf] by simp
    then have len: "length buf1 = 3024000" using Suc.prems(1) by simp
    have "n = 630 - (y + 1)" "y + 1 \<le> 630" using Suc.hyps(2) by simp_all
    from Suc.hyps(1) [OF this(1) len this(2)] show ?thesis
      using lt Inr by (subst scan_rows.simps) simp
  qed
qed

lemma scan_rows_fill:
  "case scan_rows (fill_pixel c) y ye x xe buf of
     Inl e \<Rightarrow> e = RangeError | Inr buf' \<Rightarrow> length buf' = length buf"
proof (induction "ye - y" arbitrary: y buf)
  case 0
  then show ?case by (subst scan_rows.simps) simp
next
  case (Suc n)
  then have lt: "y < ye" by simp
  show ?case
  proof (cases "scan_cols (fill_pixel c) y x xe buf")
    case (Inl e)
    then have "e = RangeError" using scan_cols_fill [where c = c and y = y and x = x and xe = xe and buf = buf] by simp
    then show ?thesis using lt Inl by (subst scan_rows.simps) simp
  next
    case (Inr buf1)
    then have len: "length buf1 = length buf" using scan_cols_fill [where c = c and y = y and x = x and xe = xe and buf = buf] by simp
    have "n = ye - (y + 1)" using Suc.hyps(2) by simp
    from Suc.hyps(1) [OF this, where buf = buf1] show ?thesis
      using lt Inr len by (subst scan_rows.simps) (simp split: sum.splits)
  qed
qed

lemma scanQuiet_fill:
  "case scanQuiet (Some x) (Some y) w h (fill_pixel c) buf of
     Inl e \<Rightarrow> e = RangeError | Inr buf' \<Rightarrow> length buf' = length buf"
  using scan_rows_fill [where c = c and y = y and ye = "y + h" and x = x and xe = "x + w" and buf = buf] by (simp add: scanQuiet_def)

lemma fill_tiles_x_result:
  assumes "y < length g"
  shows "case fill_tiles_x g y x buf of
           Inl e \<Rightarrow> e = RangeError | Inr buf' \<Rightarrow> length buf' = length buf"
proof (induction "GRID_SIZE - x" arbitrary: x buf rule: less_induct)
  case less
  show ?case
  proof (cases "x < GRID_SIZE")
    case False
    then show ?thesis by (subst fill_tiles_x.simps) simp
  next
    case True
    obtain c where r: "grid_read g y x = Inr c" using assms by (simp add: grid_read_def)
    obtain color where col: "generatePixelColor x y (c \<noteq> Null) = Inr color"
      using generatePixelColor_ok by blast
    let ?q = "scanQuiet (Some (scaled x)) (Some (scaled y)) scaledTokenSize scaledTokenSize
                (fill_pixel color) buf"
    show ?thesis
    proof (cases ?q)
      case (Inl e)
      then have "e = RangeError"
        using scanQuiet_fill [where x = "scaled x" and y = "scaled y" and w = scaledTokenSize and h = scaledTokenSize
            and c = color and buf = buf] by simp
      then show ?thesis using True r col Inl by (subst fill_tiles_x.simps) simp
    next
      case (Inr buf1)
      then have len: "length buf1 = length buf"
        using scanQuiet_fill [where x = "scaled x" and y = "scaled y" and w = scaledTokenSize and h = scaledTokenSize
            and c = color and buf = buf] by simp
      have "GRID_SIZE - (x + TOKEN_SIZE) < GRID_SIZE - x" using True by (simp add: TOKEN_SIZE_def)
      from less [OF this, where buf = buf1] show ?thesis
        using True r col Inr len by (subst fill_tiles_x.simps) (simp split: sum.splits)
    qed
  qed
qed

lemma fill_tiles_x_below_image:
  assumes "wf_grid g" "length buf = 3024000"
  shows "fill_tiles_x g 520 0 buf = Inl RangeError"
proof -
  obtain c where r: "grid_read g 520 0 = Inr c"
    using wf_grid_length [OF assms(1)] by (simp add: grid_read_def)
  obtain color where col: "generatePixelColor 0 520 (c \<noteq> Null) = Inr color"
    using generatePixelColor_ok by blast
  have "scan_rows (fill_pixel color) 624 636 0 12 buf = Inl RangeError"
    using scan_rows_below_image [OF assms(2), where xe = 12 and y = 624 and ye = 636] by simp
  then have "scanQuiet (Some (scaled 0)) (Some (scaled 520)) scaledTokenSize scaledTokenSize
      (fill_pixel color) buf = Inl RangeError"
    by (simp add: scanQuiet_def scaled_values)
  then show ?thesis using r col by (subst fill_tiles_x.simps) (simp add: GRID_SIZE_def)
qed

lemma fill_tiles_y_below_image:
  assumes "wf_grid g" "length buf = 3024000" "k \<le> 52"
  shows "fill_tiles_y g (10 * k) buf = Inl RangeError"
  using assms(2,3)
proof (induction "52 - k" arbitrary: k buf)
  case 0
  then have "k = 52" by simp
  then show ?case
    using fill_tiles_x_below_image [OF assms(1) "0.prems"(1)]
    by (subst fill_tiles_y.simps) (simp add: GRID_SIZE_def)
next
  case (Suc n)
  then have lt: "10 * k < GRID_SIZE" by (simp add: GRID_SIZE_def)
  have y: "10 * k < length g" using lt wf_grid_length [OF assms(1)] by (simp add: GRID_SIZE_def)
  show ?case
  proof (cases "fill_tiles_x g (10 * k) 0 buf")
    case (Inl e)
    then have "e = RangeError" using fill_tiles_x_result [OF y, where x = 0 and buf = buf] by simp
    then show ?thesis using lt Inl by (subst fill_tiles_y.simps) simp
  next
    case (Inr buf1)
    then have "length buf1 = length buf" using fill_tiles_x_result [OF y, where x = 0 and buf = buf] by simp
    then have len: "length buf1 = 3024000" using Suc.prems(1) by simp
    have "n = 52 - Suc k" "Suc k \<le> 52" using Suc.hyps(2) by simp_all
    from Suc.hyps(1) [OF this(1) len this(2)] show ?thesis
      using lt Inr by (subst fill_tiles_y.simps) (simp add: TOKEN_SIZE_def add.commute)
  qed
qed

lemma generateImage_RangeError:
  assumes "wf_grid g"
  shows "generateImage lib g newPixelX newPixelY = Inl RangeError"
  using fill_tiles_y_below_image [OF assms length_new_image, where k = 0]
  by (simp add: generateImage_def)

lemma scanQuiet_NaN: "scanQuiet (scaled_arg JUndefined) (scaled_arg JUndefined) w h f buf = Inr buf"
  by (simp add: scanQuiet_def scaled_arg_def)

lemma highlight_guard_undefined: "JUndefined \<noteq> JNull"
  by simp

text \<open>
  C7 on the code. \<open>generateImage\<close> paints the 100 by 100 tiles, each 12 by 12 pixels,
  into a bitmap of 1200 by 630 pixels. The tiles of the grid row \<open>y = 520\<close> cover the
  pixel rows 624 to 635; the first write into pixel row 630 is at the byte offset
  3024000, the length of the buffer, and throws a RangeError. This happens in the base
  fill of lines 63 to 72, before the highlight of lines 74 to 83 and for every value of
  the highlight arguments: with the coordinate of a claimed cell, with the \<open>undefined\<close>
  arguments of the handler when no cell could be claimed, and with the \<open>null\<close> arguments
  of the plain render. The first claim on a fresh server therefore ends with this error
  after the claim was saved, and no image is produced.
\<close>

theorem render_overruns_bitmap:
  "generateImage lib initial_grid (JNum 0) (JNum 0) = Inl RangeError
   \<and> generateImage lib initial_grid JUndefined JUndefined = Inl RangeError
   \<and> generateImage lib initial_grid JNull JNull = Inl RangeError
   \<and> fst (frame_handler lib True ''42'' initial_state
            \<lparr>grid_json = Absent, user_pixels_json = Absent,
             grid_json_writable = True, user_pixels_json_writable = True\<rparr>) = Inl RangeError"
proof -
  let ?d = "\<lparr>grid_json = Absent, user_pixels_json = Absent,
             grid_json_writable = True, user_pixels_json_writable = True\<rparr>"
  let ?s1 = "\<lparr>grid = (grid initial_state)[0 := (grid initial_state ! 0)[0 := Obj ''42'']],
              userPixels = appended (userPixels initial_state) ''42'' (0, 0)\<rparr>"
  have c: "claim ''42'' initial_state = (Inr (Some (0, 0)), ?s1)"
    using claim_next_state [OF initial_filled(1), of "''42''"] plain_ids by simp
  have wf1: "wf_grid (grid ?s1)" using claim_wf [OF initial_filled(2), of "''42''"] c by simp
  have sv: "fst (saveData ?s1 ?d) = Inr ()" by (simp add: saveData_def Let_def)
  have cs: "claim_and_save ''42'' initial_state ?d = (Inr (Some (0, 0)), ?s1, snd (saveData ?s1 ?d))"
    using c sv by (cases "saveData ?s1 ?d") (simp add: claim_and_save_def)
  have g: "generateImage lib (grid ?s1) (opt_x (Some (0, 0))) (opt_y (Some (0, 0))) = Inl RangeError"
    using generateImage_RangeError [OF wf1] .
  have "fst (frame_handler lib True ''42'' initial_state ?d) = Inl RangeError"
    unfolding frame_handler_def cs using g by simp
  moreover have "generateImage lib initial_grid (JNum 0) (JNum 0) = Inl RangeError"
    by (rule generateImage_RangeError [OF wf_grid_initial])
  moreover have "generateImage lib initial_grid JUndefined JUndefined = Inl RangeError"
    by (rule generateImage_RangeError [OF wf_grid_initial])
  moreover have "generateImage lib initial_grid JNull JNull = Inl RangeError"
    by (rule generateImage_RangeError [OF wf_grid_initial])
  ultimately show ?thesis by simp
qed

end
